theory Spec2Isabelle
  imports Complex_Main
begin

section \<open>Libaudioverse: the processing graph, the property interface, the delay line\<close>

text \<open>
  A shallow embedding of \<^verbatim>\<open>node.cpp\<close> (the node base class, the subgraph node, the
  public property interface and the late reflections node) and of
  \<^verbatim>\<open>implementations/delayline.cpp\<close>.

  Conventions. Single precision samples and \<^verbatim>\<open>float\<close>/\<^verbatim>\<open>double\<close> parameters are
  real numbers; where a result depends on how they are rounded (the delay lengths of
  the late reflections node) the arithmetic is a parameter. \<^verbatim>\<open>unsigned int\<close> values are natural numbers and \<^verbatim>\<open>int\<close> values are
  integers (no claim depends on wrap-around). A node is named by its index in the
  simulation's node store, which stands for the \<^verbatim>\<open>shared_ptr\<close> the code passes around.
  A function whose C++ original recurses through the graph takes a fuel argument and
  returns \<open>None\<close> when the fuel runs out; not returning is the value \<open>None\<close>.
\<close>

subsection \<open>Error codes and enumerations\<close>

datatype LavError =
    Lav_ERROR_NONE
  | Lav_ERROR_RANGE
  | Lav_ERROR_TYPE_MISMATCH
  | Lav_ERROR_PROPERTY_IS_READ_ONLY
  | Lav_ERROR_CAUSES_CYCLE
  | Lav_ERROR_CANNOT_CONNECT_TO_PROPERTY
  | Lav_ERROR_INTERNAL
  | Lav_ERROR_INVALID_HANDLE

datatype LavNodeState = Lav_NODESTATE_PAUSED | Lav_NODESTATE_PLAYING

datatype LavChannelInterpretation =
    Lav_CHANNEL_INTERPRETATION_DISCRETE
  | Lav_CHANNEL_INTERPRETATION_SPEAKERS

datatype LavPropertyType =
    Lav_PROPERTYTYPE_INT
  | Lav_PROPERTYTYPE_FLOAT
  | Lav_PROPERTYTYPE_DOUBLE
  | Lav_PROPERTYTYPE_STRING
  | Lav_PROPERTYTYPE_FLOAT3
  | Lav_PROPERTYTYPE_FLOAT6
  | Lav_PROPERTYTYPE_FLOAT_ARRAY
  | Lav_PROPERTYTYPE_INT_ARRAY
  | Lav_PROPERTYTYPE_BUFFER

subsection \<open>Numeric helpers\<close>

text \<open>The conversion \<^verbatim>\<open>(unsigned int)x\<close> of a non-negative float: the fraction is dropped.\<close>

definition to_unsigned :: "real \<Rightarrow> nat" where
  "to_unsigned x = nat \<lfloor>x\<rfloor>"

text \<open>
  Modelled from the spec: \<^verbatim>\<open>ringmodi\<close> is declared in the sources (``C's mod is in fact
  not the discrete math operation. This function handles that.'') but its body is not
  among them; the spec lists it as the positive modulus.
\<close>

definition ringmodi :: "int \<Rightarrow> int \<Rightarrow> int" where
  "ringmodi dividend divisor = dividend mod divisor"

text \<open>The C library's \<^verbatim>\<open>round\<close>: to the nearest integer, halves away from zero.\<close>

definition c_round :: "real \<Rightarrow> int" where
  "c_round x = (if 0 \<le> x then \<lfloor>x + 1 / 2\<rfloor> else - \<lfloor>- x + 1 / 2\<rfloor>)"

text \<open>
  Modelled from the spec: the kernels of \<^verbatim>\<open>kernels.hpp\<close> are not among the sources; the
  spec names them ``elementwise multiply/add scalar''. Each works on the first \<open>n\<close>
  samples of a buffer.
\<close>

definition scalarMultiplicationKernel :: "nat \<Rightarrow> real \<Rightarrow> real list \<Rightarrow> real list" where
  "scalarMultiplicationKernel n c xs = map (\<lambda>x. c * x) (take n xs) @ drop n xs"

definition scalarAdditionKernel :: "nat \<Rightarrow> real \<Rightarrow> real list \<Rightarrow> real list" where
  "scalarAdditionKernel n c xs = map (\<lambda>x. c + x) (take n xs) @ drop n xs"

subsection \<open>Properties\<close>

type_synonym nid = nat

text \<open>
  Modelled from the spec: the class \<^verbatim>\<open>Property\<close> (\<^verbatim>\<open>properties.hpp\<close>) is not among the
  sources. The spec gives a property a type, a current value, a default, a range, a
  read-only flag and a modified-since-last-tick flag; \<^verbatim>\<open>reset\<close> returns the value to
  the default, and a set outside the range raises \<^verbatim>\<open>RANGE\<close>.
\<close>

datatype property_value =
    IntValue int
  | FloatValue real
  | DoubleValue real
  | StringValue string
  | Float3Value real real real
  | Float6Value real real real real real real
  | FloatArrayValue "real list"
  | IntArrayValue "int list"
  | BufferValue "nat option"

record property =
  ptype :: LavPropertyType
  current :: property_value
  default_value :: property_value
  int_min :: int
  int_max :: int
  min_length :: nat
  max_length :: nat
  read_only :: bool
  modified :: bool

definition Property_getType :: "property \<Rightarrow> LavPropertyType" where
  "Property_getType p = ptype p"

definition Property_isReadOnly :: "property \<Rightarrow> bool" where
  "Property_isReadOnly p = read_only p"

definition Property_reset :: "property \<Rightarrow> property" where
  "Property_reset p = p\<lparr>current := default_value p, modified := True\<rparr>"

definition Property_setIntValue :: "property \<Rightarrow> int \<Rightarrow> LavError + property" where
  "Property_setIntValue p v =
     (if v < int_min p \<or> int_max p < v then Inl Lav_ERROR_RANGE
      else Inr (p\<lparr>current := IntValue v, modified := True\<rparr>))"

text \<open>
  The float properties \<^verbatim>\<open>Lav_NODE_MUL\<close> and \<^verbatim>\<open>Lav_NODE_ADD\<close>, which the metadata gives
  to every node: the value for the block (k-rate), and one value per sample when the
  automation is active in this block (a-rate). Modelled from the spec: \<^verbatim>\<open>needsARate\<close> is
  true iff the automation is active this tick, and \<^verbatim>\<open>getFloatValue(i)\<close> is the value at
  sample \<open>i\<close> of the block.
\<close>

record float_property =
  fvalue :: real
  arate_values :: "real list option"

definition needsARate :: "float_property \<Rightarrow> bool" where
  "needsARate p = (arate_values p \<noteq> None)"

definition getFloatValue :: "float_property \<Rightarrow> real" where
  "getFloatValue p = fvalue p"

definition getFloatValue_at :: "float_property \<Rightarrow> nat \<Rightarrow> real" where
  "getFloatValue_at p i =
     (case arate_values p of
        None \<Rightarrow> fvalue p
      | Some vs \<Rightarrow> (if i < length vs then vs ! i else fvalue p))"

subsection \<open>Nodes, connections and the simulation\<close>

text \<open>
  An input connection covers \<open>in_count\<close> input buffers from \<open>in_start\<close> and lists the
  outputs connected to it, each as a node and the index of one of its output
  connections. An edge of the graph is stored at its input side, which is the side that
  \<^verbatim>\<open>tick\<close> and \<^verbatim>\<open>getDependencies\<close> traverse.
\<close>

record input_connection =
  in_start :: nat
  in_count :: nat
  connected :: "(nid \<times> nat) list"

record output_connection =
  out_start :: nat
  out_count :: nat

text \<open>
  A node. \<open>is_subgraph\<close> is its dynamic class (\<^verbatim>\<open>Node\<close> or \<^verbatim>\<open>SubgraphNode\<close>).
  \<open>node_state\<close>, \<open>channel_interpretation\<close>, \<open>mul_prop\<close> and \<open>add_prop\<close> are the properties
  \<^verbatim>\<open>Lav_NODE_STATE\<close>, \<^verbatim>\<open>Lav_NODE_CHANNEL_INTERPRETATION\<close>, \<^verbatim>\<open>Lav_NODE_MUL\<close> and
  \<^verbatim>\<open>Lav_NODE_ADD\<close>: \<^verbatim>\<open>makePropertyTable\<close>, which creates them for every node, is not among
  the sources, so they are fields of their own and \<^verbatim>\<open>tick\<close> reads them directly.
  \<open>properties\<close> is the rest of the \<^verbatim>\<open>std::map\<close> of properties, \<open>property_connections\<close>
  the outputs connected to a property's automation input (a slot without an entry has
  no such input), \<open>forwarded_properties\<close> the forwarding table, whose targets are weak
  pointers (\<open>None\<close> when expired). \<open>process_calls\<close> counts the calls of \<^verbatim>\<open>process()\<close>; it is
  not a member of the class. \<open>dsp\<close> is the state of the node's own signal processing.
\<close>

record 'd node =
  is_subgraph :: bool
  node_state :: LavNodeState
  channel_interpretation :: LavChannelInterpretation
  mul_prop :: float_property
  add_prop :: float_property
  properties :: "(int \<times> property) list"
  property_connections :: "(int \<times> (nid \<times> nat) list) list"
  forwarded_properties :: "(int \<times> (nid option \<times> int)) list"
  last_processed :: int
  input_connections :: "input_connection list"
  output_connections :: "output_connection list"
  input_buffers :: "real list list"
  output_buffers :: "real list list"
  subgraph_input :: "nid option"
  subgraph_output :: "nid option"
  is_processing :: bool
  num_input_buffers :: nat
  num_output_buffers :: nat
  process_calls :: nat
  dsp :: 'd

record 'd simulation =
  tick_count :: int
  block_size :: nat
  nodes :: "nid \<Rightarrow> 'd node"
  final_output_connection :: "(nid \<times> nat) list"
  handle_table :: "int \<Rightarrow> nid option"

text \<open>
  What the sources leave open. \<open>process\<close> is the virtual \<^verbatim>\<open>Node::process\<close> of the node
  with the given index: from the node it computes its new processing state and output
  buffers. \<open>willProcessParents\<close> is the virtual hook of that name. \<open>property_tick\<close> is the
  effect of \<^verbatim>\<open>Property::tick\<close> on all properties of a node (the new \<^verbatim>\<open>mul\<close>, \<^verbatim>\<open>add\<close> and
  table), and \<open>accumulate\<close> is the arithmetic of \<^verbatim>\<open>InputConnection::add\<close>: the input
  buffers of the consumer after the producer's block has been mixed in. Neither is among
  the sources, and no theorem depends on what they compute.
\<close>

record 'd hooks =
  process :: "nid \<Rightarrow> 'd node \<Rightarrow> 'd \<times> real list list"
  willProcessParents :: "nid \<Rightarrow> 'd node \<Rightarrow> 'd"
  property_tick :: "'d node \<Rightarrow> float_property \<times> float_property \<times> (int \<times> property) list"
  accumulate :: "bool \<Rightarrow> nid \<times> nat \<Rightarrow> nid \<times> nat \<Rightarrow> 'd simulation \<Rightarrow> real list list"

definition update_node :: "nid \<Rightarrow> ('d node \<Rightarrow> 'd node) \<Rightarrow> 'd simulation \<Rightarrow> 'd simulation" where
  "update_node n f s = s\<lparr>nodes := (nodes s)(n := f (nodes s n))\<rparr>"

subsection \<open>Virtual accessors\<close>

text \<open>
  \<^verbatim>\<open>SubgraphNode::getOutputBufferArray\<close> and \<^verbatim>\<open>getOutputBufferCount\<close> hand the call on to
  the subgraph's output node, and \<^verbatim>\<open>getInputConnection\<close> and
  \<^verbatim>\<open>getInputConnectionCount\<close> to its input node; a \<^verbatim>\<open>Node\<close> answers from its own
  vectors. The result names the node whose vector it is: \<open>Some None\<close> when the subgraph
  has no such node (a null array, a count of zero), \<open>None\<close> when the chain of subgraph
  nodes does not end within the fuel.
\<close>

fun outputBufferOwner :: "nat \<Rightarrow> 'd simulation \<Rightarrow> nid \<Rightarrow> nid option option" where
  "outputBufferOwner 0 s n = None"
| "outputBufferOwner (Suc f) s n =
     (if is_subgraph (nodes s n)
      then (case subgraph_output (nodes s n) of
              None \<Rightarrow> Some None
            | Some m \<Rightarrow> outputBufferOwner f s m)
      else Some (Some n))"

definition Node_getOutputBufferArray :: "nat \<Rightarrow> 'd simulation \<Rightarrow> nid \<Rightarrow> real list list option" where
  "Node_getOutputBufferArray f s n =
     (case outputBufferOwner f s n of
        None \<Rightarrow> None
      | Some None \<Rightarrow> Some []
      | Some (Some m) \<Rightarrow> Some (output_buffers (nodes s m)))"

fun inputConnectionOwner :: "nat \<Rightarrow> 'd simulation \<Rightarrow> nid \<Rightarrow> nid option option" where
  "inputConnectionOwner 0 s n = None"
| "inputConnectionOwner (Suc f) s n =
     (if is_subgraph (nodes s n)
      then (case subgraph_input (nodes s n) of
              None \<Rightarrow> Some None
            | Some m \<Rightarrow> inputConnectionOwner f s m)
      else Some (Some n))"

definition Node_getInputConnectionCount :: "nat \<Rightarrow> 'd simulation \<Rightarrow> nid \<Rightarrow> nat option" where
  "Node_getInputConnectionCount f s n =
     (case inputConnectionOwner f s n of
        None \<Rightarrow> None
      | Some None \<Rightarrow> Some 0
      | Some (Some m) \<Rightarrow> Some (length (input_connections (nodes s m))))"

definition Node_getInputConnection ::
    "nat \<Rightarrow> 'd simulation \<Rightarrow> nid \<Rightarrow> int \<Rightarrow> (LavError + nid \<times> nat) option" where
  "Node_getInputConnection f s n which =
     (case inputConnectionOwner f s n of
        None \<Rightarrow> None
      | Some None \<Rightarrow> Some (Inl Lav_ERROR_RANGE)
      | Some (Some m) \<Rightarrow>
          (if which \<ge> int (length (input_connections (nodes s m))) \<or> which < 0
           then Some (Inl Lav_ERROR_RANGE)
           else Some (Inr (m, nat which))))"

definition Node_getOutputConnection :: "'d simulation \<Rightarrow> nid \<Rightarrow> int \<Rightarrow> LavError + nid \<times> nat" where
  "Node_getOutputConnection s n which =
     (if which < 0 \<or> which \<ge> int (length (output_connections (nodes s n)))
      then Inl Lav_ERROR_RANGE
      else Inr (n, nat which))"

subsection \<open>\<^verbatim>\<open>Node::tick\<close> and \<^verbatim>\<open>SubgraphNode::tick\<close>\<close>

definition Node_zeroOutputBuffers :: "nid \<Rightarrow> 'd simulation \<Rightarrow> 'd simulation" where
  "Node_zeroOutputBuffers n s =
     update_node n (\<lambda>nd. nd\<lparr>output_buffers :=
       map (\<lambda>b. replicate (block_size s) 0) (output_buffers nd)\<rparr>) s"

definition Node_zeroInputBuffers :: "nid \<Rightarrow> 'd simulation \<Rightarrow> 'd simulation" where
  "Node_zeroInputBuffers n s =
     update_node n (\<lambda>nd. nd\<lparr>input_buffers :=
       map (\<lambda>b. replicate (block_size s) 0) (input_buffers nd)\<rparr>) s"

definition Node_tickProperties :: "'d hooks \<Rightarrow> nid \<Rightarrow> 'd simulation \<Rightarrow> 'd simulation" where
  "Node_tickProperties H n s =
     update_node n (\<lambda>nd. nd\<lparr>mul_prop := fst (property_tick H nd),
                             add_prop := fst (snd (property_tick H nd)),
                             properties := snd (snd (property_tick H nd))\<rparr>) s"

definition Node_willProcessParents :: "'d hooks \<Rightarrow> nid \<Rightarrow> 'd simulation \<Rightarrow> 'd simulation" where
  "Node_willProcessParents H n s =
     update_node n (\<lambda>nd. nd\<lparr>dsp := willProcessParents H n nd\<rparr>) s"

text \<open>
  Modelled from the spec: \<^verbatim>\<open>InputConnection::add\<close> (\<^verbatim>\<open>connections.hpp\<close>) is not among the
  sources. The spec: ``for each currently-connected output side, tick its owning node,
  then accumulate its contribution into the input side's backing input-buffer range''.
  \<open>tk\<close> is the \<^verbatim>\<open>tick\<close> that is called, \<open>dest\<close> the consumer and the index of its input
  connection.
\<close>

fun InputConnection_add ::
    "'d hooks \<Rightarrow> (nid \<Rightarrow> 'd simulation \<Rightarrow> 'd simulation option) \<Rightarrow> bool \<Rightarrow> nid \<times> nat \<Rightarrow>
     (nid \<times> nat) list \<Rightarrow> 'd simulation \<Rightarrow> 'd simulation option" where
  "InputConnection_add H tk mixing dest [] s = Some s"
| "InputConnection_add H tk mixing dest (src # rest) s =
     (case tk (fst src) s of
        None \<Rightarrow> None
      | Some s1 \<Rightarrow>
          InputConnection_add H tk mixing dest rest
            (update_node (fst dest)
               (\<lambda>nd. nd\<lparr>input_buffers := accumulate H mixing src dest s1\<rparr>) s1))"

text \<open>The loop of \<^verbatim>\<open>Node::tick\<close> over the input connections, from index \<open>i\<close> on.\<close>

fun add_input_connections ::
    "'d hooks \<Rightarrow> (nid \<Rightarrow> 'd simulation \<Rightarrow> 'd simulation option) \<Rightarrow> bool \<Rightarrow> nid \<Rightarrow> nat \<Rightarrow>
     input_connection list \<Rightarrow> 'd simulation \<Rightarrow> 'd simulation option" where
  "add_input_connections H tk mixing n i [] s = Some s"
| "add_input_connections H tk mixing n i (ic # ics) s =
     (case InputConnection_add H tk mixing (n, i) (connected ic) s of
        None \<Rightarrow> None
      | Some s1 \<Rightarrow> add_input_connections H tk mixing n (Suc i) ics s1)"

text \<open>
  \<^verbatim>\<open>Node::tick\<close> in three parts. \<open>Node_tick_gather\<close> is the body up to the loop over the
  input connections: it has \<open>Returned\<close> when the node was already processed in this
  block or is paused, and has \<open>Gathered\<close> the inputs otherwise. \<open>Node_process\<close> is the call
  of \<^verbatim>\<open>process()\<close> with the three assignments before it, and \<open>Node_apply_mul_add\<close> the
  rest: \<^verbatim>\<open>mul\<close>, then \<^verbatim>\<open>add\<close>, per sample when a-rate, by the kernels when the scalar is
  not 1.0 (not 0.0).
\<close>

datatype 'd tick_progress = Returned "'d simulation" | Gathered "'d simulation"

definition Node_tick_gather ::
    "'d hooks \<Rightarrow> (nid \<Rightarrow> 'd simulation \<Rightarrow> 'd simulation option) \<Rightarrow> nid \<Rightarrow> 'd simulation \<Rightarrow>
     'd tick_progress option" where
  "Node_tick_gather H tk n s =
     (if last_processed (nodes s n) = tick_count s then Some (Returned s)
      else
        (let s1 = Node_zeroOutputBuffers n
                    (update_node n (\<lambda>nd. nd\<lparr>last_processed := tick_count s\<rparr>) s)
         in if node_state (nodes s1 n) = Lav_NODESTATE_PAUSED then Some (Returned s1)
            else
              (let s2 = Node_zeroInputBuffers n
                          (Node_willProcessParents H n (Node_tickProperties H n s1));
                   needsMixing = (channel_interpretation (nodes s2 n) =
                                    Lav_CHANNEL_INTERPRETATION_SPEAKERS)
               in map_option Gathered
                    (add_input_connections H tk needsMixing n 0
                       (input_connections (nodes s2 n)) s2))))"

definition Node_process :: "'d hooks \<Rightarrow> nid \<Rightarrow> 'd simulation \<Rightarrow> 'd simulation" where
  "Node_process H n s =
     update_node n
       (\<lambda>nd. (let nd1 = nd\<lparr>is_processing := True,
                            num_input_buffers := length (input_buffers nd),
                            num_output_buffers := length (output_buffers nd)\<rparr>
              in nd1\<lparr>dsp := fst (process H n nd1),
                     output_buffers := snd (process H n nd1),
                     process_calls := Suc (process_calls nd1)\<rparr>)) s"

definition apply_mul :: "nat \<Rightarrow> float_property \<Rightarrow> real list list \<Rightarrow> real list list" where
  "apply_mul bs mulProp outputs =
     (if needsARate mulProp
      then map (\<lambda>buf. map (\<lambda>(i, y). y * getFloatValue_at mulProp i) (zip [0..<bs] buf) @
                       drop bs buf) outputs
      else if getFloatValue mulProp \<noteq> 1
      then map (scalarMultiplicationKernel bs (getFloatValue mulProp)) outputs
      else outputs)"

definition apply_add :: "nat \<Rightarrow> float_property \<Rightarrow> real list list \<Rightarrow> real list list" where
  "apply_add bs addProp outputs =
     (if needsARate addProp
      then map (\<lambda>buf. map (\<lambda>(i, y). y + getFloatValue_at addProp i) (zip [0..<bs] buf) @
                       drop bs buf) outputs
      else if getFloatValue addProp \<noteq> 0
      then map (scalarAdditionKernel bs (getFloatValue addProp)) outputs
      else outputs)"

definition Node_apply_mul_add :: "nid \<Rightarrow> 'd simulation \<Rightarrow> 'd simulation" where
  "Node_apply_mul_add n s =
     update_node n
       (\<lambda>nd. nd\<lparr>output_buffers :=
                  apply_add (block_size s) (add_prop nd)
                    (apply_mul (block_size s) (mul_prop nd) (output_buffers nd)),
                is_processing := False\<rparr>) s"

definition Node_tick ::
    "'d hooks \<Rightarrow> (nid \<Rightarrow> 'd simulation \<Rightarrow> 'd simulation option) \<Rightarrow> nid \<Rightarrow> 'd simulation \<Rightarrow>
     'd simulation option" where
  "Node_tick H tk n s =
     (case Node_tick_gather H tk n s of
        None \<Rightarrow> None
      | Some (Returned s1) \<Rightarrow> Some s1
      | Some (Gathered s3) \<Rightarrow> Some (Node_apply_mul_add n (Node_process H n s3)))"

text \<open>
  \<^verbatim>\<open>SubgraphNode::tick\<close>: the same test of \<^verbatim>\<open>last_processed\<close>, no zeroing of the output
  buffers, the tick of the output node, and \<^verbatim>\<open>mul\<close> and \<^verbatim>\<open>add\<close> on the buffers that
  \<^verbatim>\<open>getOutputBufferArray\<close> returns, which are the output node's.
\<close>

definition SubgraphNode_apply_mul_add :: "nat \<Rightarrow> nid \<Rightarrow> 'd simulation \<Rightarrow> 'd simulation option" where
  "SubgraphNode_apply_mul_add f n s =
     (case outputBufferOwner f s n of
        None \<Rightarrow> None
      | Some None \<Rightarrow> Some s
      | Some (Some m) \<Rightarrow>
          Some (update_node m
            (\<lambda>nd. nd\<lparr>output_buffers :=
                       apply_add (block_size s) (add_prop (nodes s n))
                         (apply_mul (block_size s) (mul_prop (nodes s n))
                            (output_buffers nd))\<rparr>) s))"

definition SubgraphNode_tick ::
    "'d hooks \<Rightarrow> nat \<Rightarrow> (nid \<Rightarrow> 'd simulation \<Rightarrow> 'd simulation option) \<Rightarrow> nid \<Rightarrow>
     'd simulation \<Rightarrow> 'd simulation option" where
  "SubgraphNode_tick H f tk n s =
     (if last_processed (nodes s n) = tick_count s then Some s
      else
        (let s1 = update_node n (\<lambda>nd. nd\<lparr>last_processed := tick_count s\<rparr>) s
         in if node_state (nodes s1 n) = Lav_NODESTATE_PAUSED then Some s1
            else
              (let s2 = Node_willProcessParents H n (Node_tickProperties H n s1)
               in case subgraph_output (nodes s2 n) of
                    None \<Rightarrow> Some s2
                  | Some out \<Rightarrow>
                      (case tk out s2 of
                         None \<Rightarrow> None
                       | Some s3 \<Rightarrow> SubgraphNode_apply_mul_add f n s3))))"

text \<open>The virtual call \<^verbatim>\<open>node->tick()\<close>, with fuel for the depth of the recursion.\<close>

primrec tick :: "'d hooks \<Rightarrow> nat \<Rightarrow> nid \<Rightarrow> 'd simulation \<Rightarrow> 'd simulation option" where
  "tick H 0 = (\<lambda>n s. None)"
| "tick H (Suc f) =
     (\<lambda>n s. if is_subgraph (nodes s n)
            then SubgraphNode_tick H (Suc f) (tick H f) n s
            else Node_tick H (tick H f) n s)"

text \<open>
  Modelled from the spec: the server (\<^verbatim>\<open>simulation.hpp\<close>) is not among the sources. The
  spec: the server ``increments \<^verbatim>\<open>tick_count\<close> exactly once per pulled block, before
  invoking the root tick'', and the root is the final output connection, whose \<^verbatim>\<open>add\<close>
  ticks each connected producer in turn (its mix goes to the server's own block, which
  is not part of a node).
\<close>

fun tick_producers ::
    "(nid \<Rightarrow> 'd simulation \<Rightarrow> 'd simulation option) \<Rightarrow> (nid \<times> nat) list \<Rightarrow> 'd simulation \<Rightarrow>
     'd simulation option" where
  "tick_producers tk [] s = Some s"
| "tick_producers tk (src # rest) s =
     (case tk (fst src) s of
        None \<Rightarrow> None
      | Some s1 \<Rightarrow> tick_producers tk rest s1)"

definition Simulation_tick :: "'d hooks \<Rightarrow> nat \<Rightarrow> 'd simulation \<Rightarrow> 'd simulation option" where
  "Simulation_tick H f s =
     tick_producers (tick H f) (final_output_connection s)
       (s\<lparr>tick_count := tick_count s + 1\<rparr>)"

subsection \<open>Dependencies, the cycle check and \<^verbatim>\<open>Node::connect\<close>\<close>

text \<open>
  \<^verbatim>\<open>Node::getDependencies\<close>: the nodes connected to the input connections (through the
  virtual accessors) and to the properties of the node; the \<^verbatim>\<open>std::set\<close> is a list
  without repetitions.
\<close>

definition Node_getDependencies :: "nat \<Rightarrow> 'd simulation \<Rightarrow> nid \<Rightarrow> nid list option" where
  "Node_getDependencies f s n =
     (case inputConnectionOwner f s n of
        None \<Rightarrow> None
      | Some ow \<Rightarrow>
          Some (remdups
            (concat (map (\<lambda>ic. map fst (connected ic))
               (case ow of None \<Rightarrow> [] | Some m \<Rightarrow> input_connections (nodes s m))) @
             concat (map (\<lambda>pc. map fst (snd pc)) (property_connections (nodes s n))))))"

text \<open>The loop of \<^verbatim>\<open>doesEdgePreserveAcyclicity\<close>: it returns at the first \<^verbatim>\<open>false\<close>.\<close>

fun dependency_loop :: "(nid \<Rightarrow> bool option) \<Rightarrow> nid list \<Rightarrow> bool option" where
  "dependency_loop chk [] = Some True"
| "dependency_loop chk (n # ns) =
     (case chk n of
        None \<Rightarrow> None
      | Some False \<Rightarrow> Some False
      | Some True \<Rightarrow> dependency_loop chk ns)"

primrec doesEdgePreserveAcyclicity :: "nat \<Rightarrow> 'd simulation \<Rightarrow> nid \<Rightarrow> nid \<Rightarrow> bool option" where
  "doesEdgePreserveAcyclicity 0 s = (\<lambda>startNode endNode. None)"
| "doesEdgePreserveAcyclicity (Suc f) s =
     (\<lambda>startNode endNode.
        if startNode = endNode then Some False
        else (case Node_getDependencies (Suc f) s startNode of
                None \<Rightarrow> None
              | Some deps \<Rightarrow>
                  dependency_loop (\<lambda>n. doesEdgePreserveAcyclicity f s n endNode) deps))"

text \<open>
  Modelled from the spec: \<^verbatim>\<open>makeConnection\<close> (\<^verbatim>\<open>connections.hpp\<close>) is not among the
  sources; the spec has it add the edge, and adding an edge that is there changes
  nothing.
\<close>

definition makeConnection :: "nid \<times> nat \<Rightarrow> nid \<times> nat \<Rightarrow> 'd simulation \<Rightarrow> 'd simulation" where
  "makeConnection outputConnection inputConnection s =
     update_node (fst inputConnection)
       (\<lambda>nd. nd\<lparr>input_connections :=
          (input_connections nd)[snd inputConnection :=
             (input_connections nd ! snd inputConnection)
               \<lparr>connected :=
                  (if outputConnection \<in> set (connected (input_connections nd ! snd inputConnection))
                   then connected (input_connections nd ! snd inputConnection)
                   else connected (input_connections nd ! snd inputConnection) @
                        [outputConnection])\<rparr>]\<rparr>) s"

text \<open>
  \<^verbatim>\<open>Node::connect\<close>. The result is the error code the public function returns
  (\<^verbatim>\<open>Lav_ERROR_NONE\<close> when nothing is thrown) and the simulation it leaves; every throw
  comes before the first write.
\<close>

definition Node_connect ::
    "nat \<Rightarrow> 'd simulation \<Rightarrow> nid \<Rightarrow> int \<Rightarrow> nid \<Rightarrow> int \<Rightarrow> (LavError \<times> 'd simulation) option" where
  "Node_connect f s this output toNode input =
     (case doesEdgePreserveAcyclicity f s this toNode of
        None \<Rightarrow> None
      | Some False \<Rightarrow> Some (Lav_ERROR_CAUSES_CYCLE, s)
      | Some True \<Rightarrow>
          (case Node_getOutputConnection s this output of
             Inl e \<Rightarrow> Some (e, s)
           | Inr outputConnection \<Rightarrow>
               (case Node_getInputConnection f s toNode input of
                  None \<Rightarrow> None
                | Some (Inl e) \<Rightarrow> Some (e, s)
                | Some (Inr inputConnection) \<Rightarrow>
                    Some (Lav_ERROR_NONE, makeConnection outputConnection inputConnection s))))"

subsection \<open>The public property interface\<close>

text \<open>
  Modelled from the spec: \<^verbatim>\<open>incomingObject\<close> (\<^verbatim>\<open>memory.hpp\<close>) is not among the sources.
  The spec: a handle is an opaque integer, valid from the object's creation until its
  release; an invalid handle is an error of its own.
\<close>

definition incomingObject :: "'d simulation \<Rightarrow> int \<Rightarrow> LavError + nid" where
  "incomingObject s h =
     (case handle_table s h of
        None \<Rightarrow> Inl Lav_ERROR_INVALID_HANDLE
      | Some n \<Rightarrow> Inr n)"

text \<open>
  \<^verbatim>\<open>Node::getProperty\<close> returns a reference: the node and slot that hold the property,
  and the property found there. A forwarded slot is looked up in the target node, whose
  weak pointer may have expired (\<open>None\<close>).
\<close>

fun Node_getProperty ::
    "nat \<Rightarrow> 'd simulation \<Rightarrow> nid \<Rightarrow> int \<Rightarrow> (LavError + nid \<times> int \<times> property) option" where
  "Node_getProperty 0 s n slot = None"
| "Node_getProperty (Suc f) s n slot =
     (case map_of (forwarded_properties (nodes s n)) slot of
        Some fwd \<Rightarrow>
          (case fst fwd of
             Some m \<Rightarrow> Node_getProperty f s m (snd fwd)
           | None \<Rightarrow> Some (Inl Lav_ERROR_INTERNAL))
      | None \<Rightarrow>
          (case map_of (properties (nodes s n)) slot of
             None \<Rightarrow> Some (Inl Lav_ERROR_RANGE)
           | Some p \<Rightarrow> Some (Inr (n, slot, p))))"

text \<open>Writing through a reference: the property stored at a node and slot is replaced.\<close>

definition store_property :: "nid \<Rightarrow> int \<Rightarrow> property \<Rightarrow> 'd simulation \<Rightarrow> 'd simulation" where
  "store_property n slot p s =
     update_node n
       (\<lambda>nd. nd\<lparr>properties :=
          map (\<lambda>kv. if fst kv = slot then (slot, p) else kv) (properties nd)\<rparr>) s"

text \<open>
  The public functions return an error code (the macros \<^verbatim>\<open>PUB_BEGIN\<close> and \<^verbatim>\<open>PUB_END\<close>
  turn an exception into its code, and the end of the body into \<^verbatim>\<open>Lav_ERROR_NONE\<close>)
  together with what they leave behind: the values written to the out-parameters
  (\<open>None\<close> when nothing was written), or the simulation.
\<close>

definition Lav_nodeGetArrayPropertyLengthRange ::
    "nat \<Rightarrow> 'd simulation \<Rightarrow> int \<Rightarrow> int \<Rightarrow> (LavError \<times> (nat \<times> nat) option) option" where
  "Lav_nodeGetArrayPropertyLengthRange f s nodeHandle slot =
     (case incomingObject s nodeHandle of
        Inl e \<Rightarrow> Some (e, None)
      | Inr n \<Rightarrow>
          (case Node_getProperty f s n slot of
             None \<Rightarrow> None
           | Some (Inl e) \<Rightarrow> Some (e, None)
           | Some (Inr r) \<Rightarrow>
               (let ty = Property_getType (snd (snd r))
                in if ty \<noteq> Lav_PROPERTYTYPE_FLOAT_ARRAY \<or> ty \<noteq> Lav_PROPERTYTYPE_INT_ARRAY
                   then Some (Lav_ERROR_TYPE_MISMATCH, None)
                   else Some (Lav_ERROR_NONE, None))))"

text \<open>What the spec asks of the length range operation, for a property already looked up.\<close>

definition length_range_spec :: "property \<Rightarrow> LavError \<times> (nat \<times> nat) option" where
  "length_range_spec p =
     (if ptype p \<noteq> Lav_PROPERTYTYPE_FLOAT_ARRAY \<and> ptype p \<noteq> Lav_PROPERTYTYPE_INT_ARRAY
      then (Lav_ERROR_TYPE_MISMATCH, None)
      else (Lav_ERROR_NONE, Some (min_length p, max_length p)))"

text \<open>
  \<^verbatim>\<open>Lav_nodeResetProperty\<close> declares \<^verbatim>\<open>auto prop\<close>: the local \<open>prop\<close> is a copy of the
  property, and \<^verbatim>\<open>reset\<close> changes the copy.
\<close>

definition Lav_nodeResetProperty ::
    "nat \<Rightarrow> 'd simulation \<Rightarrow> int \<Rightarrow> int \<Rightarrow> (LavError \<times> 'd simulation) option" where
  "Lav_nodeResetProperty f s nodeHandle slot =
     (case incomingObject s nodeHandle of
        Inl e \<Rightarrow> Some (e, s)
      | Inr n \<Rightarrow>
          (case Node_getProperty f s n slot of
             None \<Rightarrow> None
           | Some (Inl e) \<Rightarrow> Some (e, s)
           | Some (Inr r) \<Rightarrow>
               (let prop = snd (snd r)
                in if Property_isReadOnly prop
                   then Some (Lav_ERROR_PROPERTY_IS_READ_ONLY, s)
                   else (let prop = Property_reset prop
                         in Some (Lav_ERROR_NONE, s)))))"

text \<open>
  \<^verbatim>\<open>Lav_nodeSetIntProperty\<close>, for comparison, declares \<^verbatim>\<open>auto &prop\<close> (in
  \<^verbatim>\<open>PROP_PREAMBLE\<close>): what it does to \<open>prop\<close> is done to the stored property.
\<close>

definition Lav_nodeSetIntProperty ::
    "nat \<Rightarrow> 'd simulation \<Rightarrow> int \<Rightarrow> int \<Rightarrow> int \<Rightarrow> (LavError \<times> 'd simulation) option" where
  "Lav_nodeSetIntProperty f s nodeHandle slot v =
     (case incomingObject s nodeHandle of
        Inl e \<Rightarrow> Some (e, s)
      | Inr n \<Rightarrow>
          (case Node_getProperty f s n slot of
             None \<Rightarrow> None
           | Some (Inl e) \<Rightarrow> Some (e, s)
           | Some (Inr r) \<Rightarrow>
               (if Property_getType (snd (snd r)) \<noteq> Lav_PROPERTYTYPE_INT
                then Some (Lav_ERROR_TYPE_MISMATCH, s)
                else if Property_isReadOnly (snd (snd r))
                then Some (Lav_ERROR_PROPERTY_IS_READ_ONLY, s)
                else (case Property_setIntValue (snd (snd r)) v of
                        Inl e \<Rightarrow> Some (e, s)
                      | Inr p \<Rightarrow> Some (Lav_ERROR_NONE, store_property (fst r) (fst (snd r)) p s)))))"

text \<open>The property stored in a node's own table at a slot.\<close>

definition stored_property :: "'d simulation \<Rightarrow> nid \<Rightarrow> int \<Rightarrow> property option" where
  "stored_property s n slot = map_of (properties (nodes s n)) slot"

subsection \<open>Relations on simulations used to state the theorems\<close>

text \<open>Two simulations with the same nodes, connections and subgraph links.\<close>

definition same_graph :: "'d simulation \<Rightarrow> 'd simulation \<Rightarrow> bool" where
  "same_graph s t \<longleftrightarrow>
     final_output_connection t = final_output_connection s \<and>
     (\<forall>n. is_subgraph (nodes t n) = is_subgraph (nodes s n) \<and>
          input_connections (nodes t n) = input_connections (nodes s n) \<and>
          output_connections (nodes t n) = output_connections (nodes s n) \<and>
          property_connections (nodes t n) = property_connections (nodes s n) \<and>
          subgraph_input (nodes t n) = subgraph_input (nodes s n) \<and>
          subgraph_output (nodes t n) = subgraph_output (nodes s n))"

text \<open>The same graph, in the same block, with the same nodes paused.\<close>

definition same_block :: "'d simulation \<Rightarrow> 'd simulation \<Rightarrow> bool" where
  "same_block s t \<longleftrightarrow>
     same_graph s t \<and> tick_count t = tick_count s \<and> block_size t = block_size s \<and>
     (\<forall>m. node_state (nodes t m) = node_state (nodes s m))"

text \<open>
  What one or more calls of \<^verbatim>\<open>tick\<close> within one block may change: a node that was
  already processed in this block stays so and is not processed again; any other node is
  processed at most once, and then it is marked as processed.
\<close>

definition tick_progress_rel :: "'d simulation \<Rightarrow> 'd simulation \<Rightarrow> bool" where
  "tick_progress_rel s t \<longleftrightarrow>
     same_block s t \<and>
     (\<forall>m. (last_processed (nodes s m) = tick_count s \<longrightarrow>
             last_processed (nodes t m) = tick_count s) \<and>
          (process_calls (nodes t m) = process_calls (nodes s m) \<or>
           process_calls (nodes t m) = Suc (process_calls (nodes s m)) \<and>
           last_processed (nodes s m) \<noteq> tick_count s \<and>
           last_processed (nodes t m) = tick_count s))"

text \<open>
  The producers connected to the inputs of a node; whether a node runs \<^verbatim>\<open>process()\<close> when it
  is ticked (it is not a subgraph node and not paused); and the relation between a
  producer and a node that ticks it while gathering its inputs.
\<close>

definition producers :: "'d simulation \<Rightarrow> nid \<Rightarrow> nid set" where
  "producers s n = set (map fst (concat (map connected (input_connections (nodes s n)))))"

definition processes :: "'d simulation \<Rightarrow> nid \<Rightarrow> bool" where
  "processes s n \<longleftrightarrow>
     \<not> is_subgraph (nodes s n) \<and> node_state (nodes s n) \<noteq> Lav_NODESTATE_PAUSED"

definition pulls :: "'d simulation \<Rightarrow> (nid \<times> nid) set" where
  "pulls s = {(p, m). processes s m \<and> p \<in> producers s m}"

text \<open>
  \<^verbatim>\<open>tick\<close> finishes what it starts: a processing node that one or more calls of \<^verbatim>\<open>tick\<close>
  marked as processed in this block had \<^verbatim>\<open>process()\<close> called exactly once, and its
  producers are marked too.
\<close>

definition tick_closed_rel :: "'d simulation \<Rightarrow> 'd simulation \<Rightarrow> bool" where
  "tick_closed_rel s t \<longleftrightarrow>
     tick_progress_rel s t \<and>
     (\<forall>m. last_processed (nodes s m) \<noteq> tick_count s \<and>
          last_processed (nodes t m) = tick_count s \<and> processes s m \<longrightarrow>
          process_calls (nodes t m) = Suc (process_calls (nodes s m)) \<and>
          (\<forall>p\<in>producers s m. last_processed (nodes t p) = tick_count s))"

text \<open>The state in which a playing node starts to gather its inputs.\<close>

definition Node_prepare :: "'d hooks \<Rightarrow> nid \<Rightarrow> 'd simulation \<Rightarrow> 'd simulation" where
  "Node_prepare H n s =
     Node_zeroInputBuffers n (Node_willProcessParents H n (Node_tickProperties H n
       (Node_zeroOutputBuffers n
          (update_node n (\<lambda>nd. nd\<lparr>last_processed := tick_count s\<rparr>) s))))"

text \<open>
  The nodes a node refers to: the producers connected to its inputs and to its
  properties, and for a subgraph node its input and output node. The connection graph
  has an edge from each of them to the node; without subgraph nodes these are the
  connections alone.
\<close>

definition node_refs :: "'d simulation \<Rightarrow> nid \<Rightarrow> nid set" where
  "node_refs s n =
     set (concat (map (\<lambda>ic. map fst (connected ic)) (input_connections (nodes s n)))) \<union>
     set (concat (map (\<lambda>pc. map fst (snd pc)) (property_connections (nodes s n)))) \<union>
     set_option (subgraph_input (nodes s n)) \<union>
     set_option (subgraph_output (nodes s n))"

definition connection_graph :: "'d simulation \<Rightarrow> (nid \<times> nid) set" where
  "connection_graph s = {(m, n). m \<in> node_refs s n}"

text \<open>The dependency relation: \<open>d\<close> is among the dependencies \<^verbatim>\<open>getDependencies\<close> returns for \<open>n\<close>.\<close>

definition dependency_graph :: "'d simulation \<Rightarrow> (nid \<times> nid) set" where
  "dependency_graph s =
     {(d, n). \<exists>f deps. Node_getDependencies f s n = Some deps \<and> d \<in> set deps}"

text \<open>The edges of the graph: a connected output, and the input connection it feeds.\<close>

definition edges :: "'d simulation \<Rightarrow> ((nid \<times> nat) \<times> (nid \<times> nat)) set" where
  "edges s =
     {(src, (m, i)). i < length (input_connections (nodes s m)) \<and>
                     src \<in> set (connected (input_connections (nodes s m) ! i))}"

text \<open>
  The node whose input connections a node exposes: the node itself, or for a subgraph
  node the end of its chain of input nodes. \<^verbatim>\<open>connect\<close> stores a new edge there.
\<close>

definition input_side :: "'d simulation \<Rightarrow> nid \<Rightarrow> nid \<Rightarrow> bool" where
  "input_side s n m \<longleftrightarrow> (\<exists>f. inputConnectionOwner f s n = Some (Some m))"

text \<open>
  Adding an edge from \<open>this\<close> to \<open>toNode\<close> would make the graph cyclic: \<open>this\<close> can already
  be reached from \<open>toNode\<close>, or from the node whose input connections \<open>toNode\<close> exposes.
\<close>

definition closes_cycle :: "'d simulation \<Rightarrow> nid \<Rightarrow> nid \<Rightarrow> bool" where
  "closes_cycle s this toNode \<longleftrightarrow>
     (toNode, this) \<in> (connection_graph s)\<^sup>* \<or>
     (\<exists>m. input_side s toNode m \<and> (m, this) \<in> (connection_graph s)\<^sup>*)"

text \<open>
  A graph without subgraph nodes: no node is a \<^verbatim>\<open>SubgraphNode\<close> and none has the members
  of one.
\<close>

definition plain_graph :: "'d simulation \<Rightarrow> bool" where
  "plain_graph s \<longleftrightarrow>
     (\<forall>n. \<not> is_subgraph (nodes s n) \<and> subgraph_input (nodes s n) = None \<and>
          subgraph_output (nodes s n) = None)"

subsection \<open>Example simulations\<close>

text \<open>
  A node with no connections and no buffers; a source with one output buffer; a
  consumer with one input and one output buffer, fed by the given outputs. The block
  size is 2.
\<close>

definition plain_node :: "unit node" where
  "plain_node =
     \<lparr>is_subgraph = False, node_state = Lav_NODESTATE_PLAYING,
      channel_interpretation = Lav_CHANNEL_INTERPRETATION_DISCRETE,
      mul_prop = \<lparr>fvalue = 1, arate_values = None\<rparr>,
      add_prop = \<lparr>fvalue = 0, arate_values = None\<rparr>,
      properties = [], property_connections = [], forwarded_properties = [],
      last_processed = - 1, input_connections = [], output_connections = [],
      input_buffers = [], output_buffers = [],
      subgraph_input = None, subgraph_output = None,
      is_processing = False, num_input_buffers = 0, num_output_buffers = 0,
      process_calls = 0, dsp = ()\<rparr>"

definition source_node :: "unit node" where
  "source_node = plain_node\<lparr>output_connections := [\<lparr>out_start = 0, out_count = 1\<rparr>],
                            output_buffers := [[0, 0]]\<rparr>"

definition consumer_node :: "(nid \<times> nat) list \<Rightarrow> unit node" where
  "consumer_node srcs =
     plain_node\<lparr>input_connections := [\<lparr>in_start = 0, in_count = 1, connected = srcs\<rparr>],
                output_connections := [\<lparr>out_start = 0, out_count = 1\<rparr>],
                input_buffers := [[0, 0]], output_buffers := [[0, 0]]\<rparr>"

text \<open>
  A source writes ones; any other node copies its input to its output; connections
  add the producer's block to the consumer's input; properties have no automation.
\<close>

definition example_hooks :: "unit hooks" where
  "example_hooks =
     \<lparr>process = (\<lambda>n nd. ((), if input_buffers nd = []
                               then map (map (\<lambda>y. 1)) (output_buffers nd)
                               else input_buffers nd)),
      willProcessParents = (\<lambda>n nd. dsp nd),
      property_tick = (\<lambda>nd. (mul_prop nd, add_prop nd, properties nd)),
      accumulate = (\<lambda>mixing src dest s.
         map2 (map2 (+)) (input_buffers (nodes s (fst dest)))
                         (output_buffers (nodes s (fst src))))\<rparr>"

text \<open>The diamond: node 0 feeds nodes 1 and 2, which feed node 3, which feeds the server.\<close>

definition diamond :: "unit simulation" where
  "diamond =
     \<lparr>tick_count = 0, block_size = 2,
      nodes = (\<lambda>n. plain_node)
        (0 := source_node,
         1 := consumer_node [(0, 0)],
         2 := consumer_node [(0, 0)],
         3 := consumer_node [(1, 0), (2, 0)]),
      final_output_connection = [(3, 0)],
      handle_table = (\<lambda>h. None)\<rparr>"

text \<open>The chain A, B, C of the spec's third scenario, as nodes 0, 1, 2.\<close>

definition chain :: "unit simulation" where
  "chain =
     \<lparr>tick_count = 0, block_size = 2,
      nodes = (\<lambda>n. plain_node)
        (0 := source_node,
         1 := consumer_node [(0, 0)],
         2 := consumer_node [(1, 0)]),
      final_output_connection = [(2, 0)],
      handle_table = (\<lambda>h. None)\<rparr>"

text \<open>
  A subgraph node with the given input and output node and one output connection; and
  a graph of node 0, which has one input connection with nothing connected to it, and
  the subgraph node 1 whose input node and output node is node 0.
\<close>

definition subgraph_node :: "nid \<Rightarrow> nid \<Rightarrow> unit node" where
  "subgraph_node i out =
     plain_node\<lparr>is_subgraph := True, subgraph_input := Some i, subgraph_output := Some out,
                output_connections := [\<lparr>out_start = 0, out_count = 1\<rparr>]\<rparr>"

definition inner_loop :: "unit simulation" where
  "inner_loop =
     \<lparr>tick_count = 0, block_size = 2,
      nodes = (\<lambda>n. plain_node)
        (0 := consumer_node [],
         1 := subgraph_node 0 0),
      final_output_connection = [(1, 0)],
      handle_table = (\<lambda>h. None)\<rparr>"

text \<open>
  A paused subgraph node 0 whose output node 1 still holds the previous block, in the
  next block.
\<close>

definition paused_subgraph :: "unit simulation" where
  "paused_subgraph =
     \<lparr>tick_count = 1, block_size = 2,
      nodes = (\<lambda>n. plain_node)
        (0 := plain_node\<lparr>is_subgraph := True, node_state := Lav_NODESTATE_PAUSED,
                          subgraph_output := Some 1, last_processed := 0\<rparr>,
         1 := source_node\<lparr>output_buffers := [[1, 1]], last_processed := 0\<rparr>),
      final_output_connection = [(0, 0)],
      handle_table = (\<lambda>h. None)\<rparr>"

text \<open>A source with \<^verbatim>\<open>mul = 3\<close> and \<^verbatim>\<open>add = 0.5\<close>.\<close>

definition gain_sim :: "unit simulation" where
  "gain_sim =
     \<lparr>tick_count = 1, block_size = 2,
      nodes = (\<lambda>n. plain_node)
        (0 := source_node\<lparr>mul_prop := \<lparr>fvalue = 3, arate_values = None\<rparr>,
                           add_prop := \<lparr>fvalue = 1 / 2, arate_values = None\<rparr>\<rparr>),
      final_output_connection = [(0, 0)],
      handle_table = (\<lambda>h. None)\<rparr>"

text \<open>
  A node (handle 1) with an int property in slot 3, whose value 5 is not its default
  0, and a float array property in slot 7 with lengths from 1 to 8.
\<close>

definition int_property :: "int \<Rightarrow> int \<Rightarrow> property" where
  "int_property v d =
     \<lparr>ptype = Lav_PROPERTYTYPE_INT, current = IntValue v, default_value = IntValue d,
      int_min = 0, int_max = 100, min_length = 0, max_length = 0,
      read_only = False, modified = False\<rparr>"

definition float_array_property :: "real list \<Rightarrow> property" where
  "float_array_property xs =
     \<lparr>ptype = Lav_PROPERTYTYPE_FLOAT_ARRAY, current = FloatArrayValue xs,
      default_value = FloatArrayValue [], int_min = 0, int_max = 0,
      min_length = 1, max_length = 8, read_only = False, modified = False\<rparr>"

definition property_sim :: "unit simulation" where
  "property_sim =
     \<lparr>tick_count = 0, block_size = 2,
      nodes = (\<lambda>n. plain_node)
        (0 := plain_node\<lparr>properties :=
                 [(3, int_property 5 0), (7, float_array_property [1, 2])]\<rparr>),
      final_output_connection = [],
      handle_table = (\<lambda>h. None)(1 := Some 0)\<rparr>"

subsection \<open>The delay line (\<^verbatim>\<open>implementations/delayline.cpp\<close>)\<close>

record LavDelayLine =
  sr :: real
  line_length :: nat
  line :: "real list"
  write_head :: nat
  delay :: nat
  new_delay :: nat
  weight1 :: real
  weight2 :: real
  interpolation_delta :: real
  is_interpolating :: bool

text \<open>
  The constructor sets \<^verbatim>\<open>sr\<close> and \<^verbatim>\<open>line_length\<close> and allocates the line without
  initialising it: \<open>mem\<close> is what the allocation holds. Modelled from the spec: the
  defaults of the other members are declared in \<^verbatim>\<open>delayline.hpp\<close>, which is not among
  the sources; the spec gives a write head, two read heads and crossfade weights that sum
  to one, so the line starts at position zero, not crossfading, with all the weight on
  the first tap.
\<close>

definition LavDelayLine_new :: "real \<Rightarrow> real \<Rightarrow> real list \<Rightarrow> LavDelayLine" where
  "LavDelayLine_new maxDelay rate mem =
     \<lparr>sr = rate,
      line_length = to_unsigned (rate * maxDelay) + 1,
      line = take (to_unsigned (rate * maxDelay) + 1) mem @
             replicate (to_unsigned (rate * maxDelay) + 1 - length mem) 0,
      write_head = 0, delay = 0, new_delay = 0, weight1 = 1, weight2 = 0,
      interpolation_delta = 1, is_interpolating = False\<rparr>"

text \<open>
  \<^verbatim>\<open>setDelay\<close> computes the clamped tap \<^verbatim>\<open>newDelay\<close> and then assigns the argument
  \<^verbatim>\<open>delay\<close> itself (seconds) to the integer member \<^verbatim>\<open>new_delay\<close>.
\<close>

definition LavDelayLine_setDelay :: "LavDelayLine \<Rightarrow> real \<Rightarrow> LavDelayLine" where
  "LavDelayLine_setDelay dl d =
     (let newDelay = to_unsigned (d * sr dl);
          newDelay = (if newDelay \<ge> line_length dl then line_length dl - 1 else newDelay)
      in dl\<lparr>new_delay := to_unsigned d, is_interpolating := True\<rparr>)"

text \<open>The tap the spec describes: the delay in whole samples, at most \<open>line_length - 1\<close>.\<close>

definition clamped_tap :: "LavDelayLine \<Rightarrow> real \<Rightarrow> nat" where
  "clamped_tap dl d =
     (if to_unsigned (d * sr dl) \<ge> line_length dl then line_length dl - 1
      else to_unsigned (d * sr dl))"

definition LavDelayLine_setInterpolationDelta :: "LavDelayLine \<Rightarrow> real \<Rightarrow> LavDelayLine" where
  "LavDelayLine_setInterpolationDelta dl d = dl\<lparr>interpolation_delta := d\<rparr>"

text \<open>\<^verbatim>\<open>read\<close> indexes the line by the two taps; an index outside the line has no value.\<close>

definition LavDelayLine_read :: "LavDelayLine \<Rightarrow> real option" where
  "LavDelayLine_read dl =
     (if delay dl < length (line dl) \<and> new_delay dl < length (line dl)
      then Some (weight1 dl * (line dl ! delay dl) + weight2 dl * (line dl ! new_delay dl))
      else None)"

definition LavDelayLine_advance :: "LavDelayLine \<Rightarrow> real \<Rightarrow> LavDelayLine" where
  "LavDelayLine_advance dl sample =
     (let wh = nat (ringmodi (int (write_head dl) + 1) (int (line_length dl)));
          dl1 = dl\<lparr>write_head := wh, line := (line dl)[wh := sample]\<rparr>
      in if is_interpolating dl1
         then (let w1 = weight1 dl1 - interpolation_delta dl1;
                   w1 = (if w1 < 0 then 0 else w1);
                   w2 = weight2 dl1 + interpolation_delta dl1
               in if w2 \<ge> 1
                  then dl1\<lparr>weight1 := 1, weight2 := 0, delay := new_delay dl1,
                           is_interpolating := False\<rparr>
                  else dl1\<lparr>weight1 := w1, weight2 := w2\<rparr>)
         else dl1)"

text \<open>A run of \<^verbatim>\<open>advance\<close> calls, one per sample.\<close>

definition advance_all :: "LavDelayLine \<Rightarrow> real list \<Rightarrow> LavDelayLine" where
  "advance_all dl samples = foldl LavDelayLine_advance dl samples"

text \<open>The sample written \<open>k\<close> calls of \<^verbatim>\<open>advance\<close> before the latest one.\<close>

definition written_before :: "LavDelayLine \<Rightarrow> nat \<Rightarrow> real" where
  "written_before dl k =
     line dl ! nat (ringmodi (int (write_head dl) - int k) (int (line_length dl)))"

text \<open>
  Two delay lines used below: a one-second line at 8 Hz, and a four-second line at 1 Hz
  (where seconds and samples are the same number) after \<^verbatim>\<open>setDelay(2)\<close> and eight or
  nine samples.
\<close>

definition line_8hz :: LavDelayLine where
  "line_8hz = LavDelayLine_new 1 8 []"

definition line_1hz :: "real list \<Rightarrow> LavDelayLine" where
  "line_1hz samples =
     advance_all (LavDelayLine_setDelay
       (LavDelayLine_setInterpolationDelta (LavDelayLine_new 4 1 []) 1) 2) samples"


subsection \<open>The delay lengths of the late reflections node\<close>

text \<open>
  \<^verbatim>\<open>recompute\<close> mixes single and double precision, and the power it chooses for a delay
  line depends on how the logarithms are rounded. The arithmetic is therefore a
  parameter. \<open>single\<close> and \<open>double\<close> round a real number to the \<^verbatim>\<open>float\<close> and to the
  \<^verbatim>\<open>double\<close> nearest to it, and an operation of the code is the exact operation followed
  by the rounding of its result type. \<open>log_float\<close> is the \<^verbatim>\<open>log\<close> that a \<^verbatim>\<open>float\<close> argument
  selects, \<open>log_double\<close> the \<^verbatim>\<open>log\<close> of the \<^verbatim>\<open>int\<close> \<open>prime\<close>, which is promoted to \<^verbatim>\<open>double\<close>,
  and \<open>pow_double\<close> is \<^verbatim>\<open>pow\<close>; the library is not among the sources.
\<close>

record arithmetic =
  single :: "real \<Rightarrow> real"
  double :: "real \<Rightarrow> real"
  log_float :: "real \<Rightarrow> real"
  log_double :: "real \<Rightarrow> real"
  pow_double :: "real \<Rightarrow> real \<Rightarrow> real"

text \<open>
  Two arithmetics for examples: exact arithmetic, where nothing is rounded, and an
  arithmetic whose single precision keeps three decimal places.
\<close>

definition exact_arithmetic :: arithmetic where
  "exact_arithmetic =
     \<lparr>single = (\<lambda>x. x), double = (\<lambda>x. x), log_float = ln, log_double = ln,
      pow_double = (\<lambda>x y. x powr y)\<rparr>"

definition decimal_arithmetic :: arithmetic where
  "decimal_arithmetic =
     exact_arithmetic\<lparr>single := (\<lambda>x. real_of_int (c_round (x * 1000)) / 1000)\<rparr>"

definition coprimes :: "nat list" where
  "coprimes = [3, 4, 5, 7, 9, 11, 13, 16, 17, 19, 23, 27, 29, 31, 35, 37]"

text \<open>\<^verbatim>\<open>std::swap(delays[i], delays[j])\<close>.\<close>

definition swap :: "nat \<Rightarrow> nat \<Rightarrow> 'a list \<Rightarrow> 'a list" where
  "swap i j xs = xs[i := xs ! j, j := xs ! i]"

text \<open>
  \<^verbatim>\<open>float baseDelay = 0.003+(1.0f-density)*0.025;\<close> The difference is a \<^verbatim>\<open>float\<close>, the
  literals, the product and the sum are \<^verbatim>\<open>double\<close>, and the result is stored in a
  \<^verbatim>\<open>float\<close>.
\<close>

definition LateReflectionsNode_baseDelay :: "arithmetic \<Rightarrow> real \<Rightarrow> real" where
  "LateReflectionsNode_baseDelay A density =
     single A (double A (double A 0.003 +
                         double A (single A (1 - density) * double A 0.025)))"

text \<open>
  The first part of \<^verbatim>\<open>LateReflectionsNode::recompute\<close>, up to \<^verbatim>\<open>fdn.setDelays(delays)\<close>:
  the delays handed to the feedback delay network, from the density property and the
  sample rate \<^verbatim>\<open>simulation->getSr()\<close>, a \<^verbatim>\<open>float\<close>. The product \<^verbatim>\<open>baseDelay*sr\<close> is a
  \<^verbatim>\<open>float\<close>; the quotient of the logarithms, the power and the delay in seconds are
  \<^verbatim>\<open>double\<close>; \<^verbatim>\<open>round\<close> yields a whole number, which the conversion to \<^verbatim>\<open>int\<close> keeps; and
  \<^verbatim>\<open>delays\<close> is an array of \<^verbatim>\<open>float\<close>.
\<close>

definition LateReflectionsNode_recompute_delays :: "arithmetic \<Rightarrow> real \<Rightarrow> real \<Rightarrow> real list" where
  "LateReflectionsNode_recompute_delays A density rate =
     (let baseDelay = LateReflectionsNode_baseDelay A density;
          delays = map (\<lambda>i.
            (let prime = coprimes ! ((i mod 4) * 4 + i div 4);
                 powerApprox = double A (log_float A (single A (baseDelay * rate)) /
                                         log_double A (real prime));
                 neededPower = c_round powerApprox;
                 delayInSamples = pow_double A (real prime) (of_int neededPower);
                 delay = double A (delayInSamples / rate);
                 delay = min delay 1
             in single A delay)) [0..<16];
          delays = swap 0 15 delays;
          delays = swap 1 14 delays
      in delays)"

text \<open>
  The delays as the spec words them, in the same arithmetic. The prime of position \<open>i\<close>
  is \<open>coprimes[(i mod 4)*4 + i/4]\<close>; rounding is to the nearest whole number, a half
  away from zero; the logarithm to the base \<open>prime\<close> is the quotient of two logarithms;
  a length is \<open>prime^round(log_prime(base_delay * sr))\<close> samples, divided by \<open>sr\<close> for
  seconds; the swaps exchange positions 0 and 15 and positions 1 and 14; and each delay
  is clamped to one second.
\<close>

definition spec_prime :: "nat \<Rightarrow> nat" where
  "spec_prime i = coprimes ! ((i mod 4) * 4 + i div 4)"

definition spec_round :: "real \<Rightarrow> int" where
  "spec_round x = \<lfloor>\<bar>x\<bar> + 1 / 2\<rfloor> * (if x < 0 then - 1 else 1)"

definition spec_log :: "arithmetic \<Rightarrow> nat \<Rightarrow> real \<Rightarrow> real" where
  "spec_log A p x = double A (log_float A x / log_double A (real p))"

definition spec_samples :: "arithmetic \<Rightarrow> real \<Rightarrow> real \<Rightarrow> nat \<Rightarrow> real" where
  "spec_samples A density rate p =
     pow_double A (real p)
       (of_int (spec_round
          (spec_log A p (single A (LateReflectionsNode_baseDelay A density * rate)))))"

definition spec_seconds :: "arithmetic \<Rightarrow> real \<Rightarrow> real \<Rightarrow> nat \<Rightarrow> real" where
  "spec_seconds A density rate p = double A (spec_samples A density rate p / rate)"

definition spec_swapped :: "nat \<Rightarrow> nat" where
  "spec_swapped i =
     (if i = 0 then 15 else if i = 15 then 0 else if i = 1 then 14 else if i = 14 then 1
      else i)"

definition spec_delays :: "arithmetic \<Rightarrow> real \<Rightarrow> real \<Rightarrow> real list" where
  "spec_delays A density rate =
     map (\<lambda>i. single A (min (spec_seconds A density rate (spec_prime (spec_swapped i))) 1))
       [0..<16]"

section \<open>Theorems\<close>

subsection \<open>The delay line\<close>

lemma setDelay_stores_seconds:
  "new_delay (LavDelayLine_setDelay dl d) = to_unsigned d"
  by (simp add: LavDelayLine_setDelay_def Let_def)

lemma setDelay_keeps_weights:
  "weight1 (LavDelayLine_setDelay dl d) = weight1 dl \<and>
   weight2 (LavDelayLine_setDelay dl d) = weight2 dl \<and>
   is_interpolating (LavDelayLine_setDelay dl d)"
  by (simp add: LavDelayLine_setDelay_def Let_def)

text \<open>
  C6. The claim: \<^verbatim>\<open>setDelay(seconds)\<close> stores the delay in whole samples, clamped to
  \<open>line_length - 1\<close>. On a one-second line at 8 Hz, \<^verbatim>\<open>setDelay(0.5)\<close> should store the tap
  4; the code stores 0, the whole seconds of the argument.
\<close>

theorem setDelay_half_second_stores_zero:
  "new_delay (LavDelayLine_setDelay line_8hz (1 / 2)) = 0 \<and>
   clamped_tap line_8hz (1 / 2) = 4 \<and>
   line_length line_8hz = 9"
  by (simp add: LavDelayLine_setDelay_def line_8hz_def LavDelayLine_new_def
      to_unsigned_def clamped_tap_def)

lemma read_after_crossfade:
  "\<not> is_interpolating dl \<Longrightarrow> weight1 dl = 1 \<Longrightarrow> weight2 dl = 0 \<Longrightarrow>
   delay dl < length (line dl) \<Longrightarrow> new_delay dl < length (line dl) \<Longrightarrow>
   LavDelayLine_read dl = Some (line dl ! delay dl)"
  by (simp add: LavDelayLine_read_def)

text \<open>
  C7. The claim: after \<^verbatim>\<open>setDelay(d)\<close> and a completed crossfade, \<^verbatim>\<open>read()\<close> returns the
  sample written \<open>d * sr\<close> steps earlier. On a four-second line at 1 Hz with
  \<^verbatim>\<open>setDelay(2)\<close>, after the samples 1 to 8 the sample written two steps before the
  latest is 6 and \<^verbatim>\<open>read()\<close> returns 7; one sample later it is 7 and \<^verbatim>\<open>read()\<close> still
  returns 7: the line is indexed by the tap alone, not from the write head.
\<close>

theorem read_ignores_write_head:
  "LavDelayLine_read (line_1hz [1, 2, 3, 4, 5, 6, 7, 8]) = Some 7 \<and>
   written_before (line_1hz [1, 2, 3, 4, 5, 6, 7, 8]) 2 = 6 \<and>
   LavDelayLine_read (line_1hz [1, 2, 3, 4, 5, 6, 7, 8, 9]) = Some 7 \<and>
   written_before (line_1hz [1, 2, 3, 4, 5, 6, 7, 8, 9]) 2 = 7 \<and>
   delay (line_1hz [1, 2, 3, 4, 5, 6, 7, 8]) = 2 \<and>
   \<not> is_interpolating (line_1hz [1, 2, 3, 4, 5, 6, 7, 8])"
  by (simp add: line_1hz_def advance_all_def LavDelayLine_advance_def
      LavDelayLine_setDelay_def LavDelayLine_setInterpolationDelta_def
      LavDelayLine_new_def to_unsigned_def LavDelayLine_read_def written_before_def
      ringmodi_def Let_def)


subsection \<open>The node store\<close>

lemma nodes_update_node [simp]:
  "nodes (update_node n f s) m = (if m = n then f (nodes s n) else nodes s m)"
  by (simp add: update_node_def)

lemma tick_count_update_node [simp]: "tick_count (update_node n f s) = tick_count s"
  by (simp add: update_node_def)

lemma block_size_update_node [simp]: "block_size (update_node n f s) = block_size s"
  by (simp add: update_node_def)

lemma final_update_node [simp]:
  "final_output_connection (update_node n f s) = final_output_connection s"
  by (simp add: update_node_def)

subsection \<open>One block: what \<^verbatim>\<open>tick\<close> may change\<close>

lemma rel_refl: "tick_progress_rel s s"
  by (simp add: tick_progress_rel_def same_block_def same_graph_def)

lemma same_graph_trans: "same_graph a b \<Longrightarrow> same_graph b c \<Longrightarrow> same_graph a c"
  by (simp add: same_graph_def)

lemma same_block_trans: "same_block a b \<Longrightarrow> same_block b c \<Longrightarrow> same_block a c"
  by (auto simp: same_block_def intro: same_graph_trans)

lemma rel_trans:
  assumes "tick_progress_rel a b" and "tick_progress_rel b c"
  shows "tick_progress_rel a c"
proof -
  have tc: "tick_count b = tick_count a"
    using assms(1) by (simp add: tick_progress_rel_def same_block_def)
  have sg: "same_block a c"
    using assms same_block_trans by (auto simp: tick_progress_rel_def)
  have "\<And>m. (last_processed (nodes a m) = tick_count a \<longrightarrow>
             last_processed (nodes c m) = tick_count a) \<and>
          (process_calls (nodes c m) = process_calls (nodes a m) \<or>
           process_calls (nodes c m) = Suc (process_calls (nodes a m)) \<and>
           last_processed (nodes a m) \<noteq> tick_count a \<and>
           last_processed (nodes c m) = tick_count a)"
  proof -
    fix m
    have ab: "(last_processed (nodes a m) = tick_count a \<longrightarrow>
             last_processed (nodes b m) = tick_count a) \<and>
          (process_calls (nodes b m) = process_calls (nodes a m) \<or>
           process_calls (nodes b m) = Suc (process_calls (nodes a m)) \<and>
           last_processed (nodes a m) \<noteq> tick_count a \<and>
           last_processed (nodes b m) = tick_count a)"
      using assms(1) by (simp add: tick_progress_rel_def)
    have bc: "(last_processed (nodes b m) = tick_count a \<longrightarrow>
             last_processed (nodes c m) = tick_count a) \<and>
          (process_calls (nodes c m) = process_calls (nodes b m) \<or>
           process_calls (nodes c m) = Suc (process_calls (nodes b m)) \<and>
           last_processed (nodes b m) \<noteq> tick_count a \<and>
           last_processed (nodes c m) = tick_count a)"
      using assms(2) tc by (simp add: tick_progress_rel_def)
    show "(last_processed (nodes a m) = tick_count a \<longrightarrow>
             last_processed (nodes c m) = tick_count a) \<and>
          (process_calls (nodes c m) = process_calls (nodes a m) \<or>
           process_calls (nodes c m) = Suc (process_calls (nodes a m)) \<and>
           last_processed (nodes a m) \<noteq> tick_count a \<and>
           last_processed (nodes c m) = tick_count a)"
      using ab bc by auto
  qed
  with sg show ?thesis by (simp add: tick_progress_rel_def)
qed

lemma rel_input_buffers:
  "tick_progress_rel s (update_node n (\<lambda>nd. nd\<lparr>input_buffers := bufs nd\<rparr>) s)"
  by (simp add: tick_progress_rel_def same_block_def same_graph_def)

lemma rel_output_buffers:
  "tick_progress_rel s (update_node n (\<lambda>nd. nd\<lparr>output_buffers := bufs nd\<rparr>) s)"
  by (simp add: tick_progress_rel_def same_block_def same_graph_def)

lemma InputConnection_add_rel:
  assumes tk: "\<And>p t t'. tk p t = Some t' \<Longrightarrow> tick_progress_rel t t'"
  shows "InputConnection_add H tk mixing dest srcs s = Some s' \<Longrightarrow> tick_progress_rel s s'"
proof (induction srcs arbitrary: s)
  case Nil
  then show ?case by (simp add: rel_refl)
next
  case (Cons src rest)
  from Cons.prems obtain s1 where s1: "tk (fst src) s = Some s1"
    and rest: "InputConnection_add H tk mixing dest rest
            (update_node (fst dest)
               (\<lambda>nd. nd\<lparr>input_buffers := accumulate H mixing src dest s1\<rparr>) s1) = Some s'"
    by (auto split: option.splits)
  have "tick_progress_rel s s1" using tk s1 by blast
  moreover have "tick_progress_rel s1 (update_node (fst dest)
               (\<lambda>nd. nd\<lparr>input_buffers := accumulate H mixing src dest s1\<rparr>) s1)"
    by (rule rel_input_buffers)
  moreover note Cons.IH [OF rest]
  ultimately show ?case by (blast intro: rel_trans)
qed

lemma add_input_connections_rel:
  assumes tk: "\<And>p t t'. tk p t = Some t' \<Longrightarrow> tick_progress_rel t t'"
  shows "add_input_connections H tk mixing n i ics s = Some s' \<Longrightarrow> tick_progress_rel s s'"
proof (induction ics arbitrary: s i)
  case Nil
  then show ?case by (simp add: rel_refl)
next
  case (Cons ic ics)
  from Cons.prems obtain s1 where
    s1: "InputConnection_add H tk mixing (n, i) (connected ic) s = Some s1"
    and rest: "add_input_connections H tk mixing n (Suc i) ics s1 = Some s'"
    by (auto split: option.splits)
  have "tick_progress_rel s s1"
    by (rule InputConnection_add_rel [OF tk s1])
  with Cons.IH [OF rest] show ?case by (blast intro: rel_trans)
qed

lemma tick_producers_rel:
  assumes tk: "\<And>p t t'. tk p t = Some t' \<Longrightarrow> tick_progress_rel t t'"
  shows "tick_producers tk srcs s = Some s' \<Longrightarrow> tick_progress_rel s s'"
proof (induction srcs arbitrary: s)
  case Nil
  then show ?case by (simp add: rel_refl)
next
  case (Cons src rest)
  from Cons.prems obtain s1 where s1: "tk (fst src) s = Some s1"
    and rest: "tick_producers tk rest s1 = Some s'"
    by (auto split: option.splits)
  from tk [OF s1] Cons.IH [OF rest] show ?case by (blast intro: rel_trans)
qed

lemma Node_prepare_fields:
  "tick_count (Node_prepare H n s) = tick_count s"
  "last_processed (nodes (Node_prepare H n s) m) =
     (if m = n then tick_count s else last_processed (nodes s m))"
  "process_calls (nodes (Node_prepare H n s) m) = process_calls (nodes s m)"
  "same_block s (Node_prepare H n s)"
  by (simp_all add: Node_prepare_def Node_zeroInputBuffers_def Node_willProcessParents_def
      Node_tickProperties_def Node_zeroOutputBuffers_def same_block_def same_graph_def)

lemma Node_finish_fields:
  "tick_count (Node_apply_mul_add n (Node_process H n s)) = tick_count s"
  "last_processed (nodes (Node_apply_mul_add n (Node_process H n s)) m) =
     last_processed (nodes s m)"
  "process_calls (nodes (Node_apply_mul_add n (Node_process H n s)) m) =
     (if m = n then Suc (process_calls (nodes s m)) else process_calls (nodes s m))"
  "same_block s (Node_apply_mul_add n (Node_process H n s))"
  by (simp_all add: Node_apply_mul_add_def Node_process_def same_block_def same_graph_def
      Let_def)

lemma Node_tick_rel:
  assumes tk: "\<And>p t t'. tk p t = Some t' \<Longrightarrow> tick_progress_rel t t'"
      and run: "Node_tick H tk n s = Some s'"
  shows "tick_progress_rel s s'"
proof (cases "last_processed (nodes s n) = tick_count s")
  case True
  with run show ?thesis by (simp add: Node_tick_def Node_tick_gather_def rel_refl)
next
  case unmarked: False
  let ?s1 = "Node_zeroOutputBuffers n
                    (update_node n (\<lambda>nd. nd\<lparr>last_processed := tick_count s\<rparr>) s)"
  show ?thesis
  proof (cases "node_state (nodes s n) = Lav_NODESTATE_PAUSED")
    case True
    with run unmarked have "s' = ?s1"
      by (simp add: Node_tick_def Node_tick_gather_def Node_zeroOutputBuffers_def Let_def)
    then show ?thesis
      by (simp add: tick_progress_rel_def same_block_def same_graph_def
          Node_zeroOutputBuffers_def)
  next
    case False
    let ?s2 = "Node_prepare H n s"
    from run unmarked False obtain s3 where
      loop: "add_input_connections H tk
               (channel_interpretation (nodes ?s2 n) = Lav_CHANNEL_INTERPRETATION_SPEAKERS)
               n 0 (input_connections (nodes ?s2 n)) ?s2 = Some s3"
      and s': "s' = Node_apply_mul_add n (Node_process H n s3)"
      by (auto simp: Node_tick_def Node_tick_gather_def Node_prepare_def Let_def
          Node_zeroOutputBuffers_def split: option.splits)
    have r23: "tick_progress_rel ?s2 s3"
      by (rule add_input_connections_rel [OF tk loop])
    have sg: "same_block s s'"
      using r23 Node_prepare_fields(4) [of s H n] Node_finish_fields(4) [of s3 n H] s'
      by (auto simp: tick_progress_rel_def intro: same_block_trans)
    have "\<And>m. (last_processed (nodes s m) = tick_count s \<longrightarrow>
             last_processed (nodes s' m) = tick_count s) \<and>
          (process_calls (nodes s' m) = process_calls (nodes s m) \<or>
           process_calls (nodes s' m) = Suc (process_calls (nodes s m)) \<and>
           last_processed (nodes s m) \<noteq> tick_count s \<and>
           last_processed (nodes s' m) = tick_count s)"
    proof -
      fix m
      have m23: "(last_processed (nodes ?s2 m) = tick_count s \<longrightarrow>
             last_processed (nodes s3 m) = tick_count s) \<and>
          (process_calls (nodes s3 m) = process_calls (nodes ?s2 m) \<or>
           process_calls (nodes s3 m) = Suc (process_calls (nodes ?s2 m)) \<and>
           last_processed (nodes ?s2 m) \<noteq> tick_count s \<and>
           last_processed (nodes s3 m) = tick_count s)"
        using r23 by (simp add: tick_progress_rel_def Node_prepare_fields(1))
      show "(last_processed (nodes s m) = tick_count s \<longrightarrow>
             last_processed (nodes s' m) = tick_count s) \<and>
          (process_calls (nodes s' m) = process_calls (nodes s m) \<or>
           process_calls (nodes s' m) = Suc (process_calls (nodes s m)) \<and>
           last_processed (nodes s m) \<noteq> tick_count s \<and>
           last_processed (nodes s' m) = tick_count s)"
        using m23 unmarked
        by (auto simp: s' Node_finish_fields Node_prepare_fields split: if_splits)
    qed
    with sg show ?thesis by (simp add: tick_progress_rel_def)
  qed
qed

lemma SubgraphNode_apply_mul_add_rel:
  "SubgraphNode_apply_mul_add f n s = Some s' \<Longrightarrow> tick_progress_rel s s'"
  by (auto simp: SubgraphNode_apply_mul_add_def rel_refl rel_output_buffers
      split: option.splits)

lemma SubgraphNode_mark_rel:
  "tick_progress_rel s (update_node n (\<lambda>nd. nd\<lparr>last_processed := tick_count s\<rparr>) s)"
  by (simp add: tick_progress_rel_def same_block_def same_graph_def)

lemma SubgraphNode_prepare_rel:
  "tick_progress_rel s (Node_willProcessParents H n (Node_tickProperties H n s))"
  by (simp add: tick_progress_rel_def same_block_def same_graph_def
      Node_willProcessParents_def Node_tickProperties_def)

lemma SubgraphNode_tick_rel:
  assumes tk: "\<And>p t t'. tk p t = Some t' \<Longrightarrow> tick_progress_rel t t'"
      and run: "SubgraphNode_tick H f tk n s = Some s'"
  shows "tick_progress_rel s s'"
proof -
  let ?s1 = "update_node n (\<lambda>nd. nd\<lparr>last_processed := tick_count s\<rparr>) s"
  let ?s2 = "Node_willProcessParents H n (Node_tickProperties H n ?s1)"
  have r1: "tick_progress_rel s ?s1" by (rule SubgraphNode_mark_rel)
  have r2: "tick_progress_rel s ?s2"
    using r1 SubgraphNode_prepare_rel [of ?s1 H n] by (blast intro: rel_trans)
  consider (already) "s' = s" | (paused) "s' = ?s1" | (no_output) "s' = ?s2"
    | (ticked) out s3 where "tk out ?s2 = Some s3"
        "SubgraphNode_apply_mul_add f n s3 = Some s'"
    using run
    by (auto simp: SubgraphNode_tick_def Let_def split: if_splits option.splits)
  then show ?thesis
  proof cases
    case already
    then show ?thesis by (simp add: rel_refl)
  next
    case paused
    then show ?thesis using r1 by simp
  next
    case no_output
    then show ?thesis using r2 by simp
  next
    case ticked
    from tk [OF ticked(1)] SubgraphNode_apply_mul_add_rel [OF ticked(2)] r2
    show ?thesis by (blast intro: rel_trans)
  qed
qed

lemma tick_rel: "tick H f n s = Some s' \<Longrightarrow> tick_progress_rel s s'"
proof (induction f arbitrary: n s s')
  case 0
  then show ?case by simp
next
  case (Suc f)
  show ?case
  proof (cases "is_subgraph (nodes s n)")
    case True
    with Suc.prems have "SubgraphNode_tick H (Suc f) (tick H f) n s = Some s'" by simp
    then show ?thesis using Suc.IH SubgraphNode_tick_rel by blast
  next
    case False
    with Suc.prems have "Node_tick H (tick H f) n s = Some s'" by simp
    then show ?thesis using Suc.IH Node_tick_rel by blast
  qed
qed

lemma Simulation_tick_calls:
  assumes "Simulation_tick H f s = Some t"
  shows "process_calls (nodes t n) = process_calls (nodes s n) \<or>
         process_calls (nodes t n) = Suc (process_calls (nodes s n))"
proof -
  let ?s1 = "s\<lparr>tick_count := tick_count s + 1\<rparr>"
  have "tick_producers (tick H f) (final_output_connection ?s1) ?s1 = Some t"
    using assms by (simp add: Simulation_tick_def)
  then have "tick_progress_rel ?s1 t"
    using tick_producers_rel [of "tick H f"] tick_rel by blast
  then show ?thesis by (auto simp: tick_progress_rel_def)
qed

subsection \<open>One block: every node that is reached is processed\<close>

lemma rel_same_block: "tick_progress_rel s t \<Longrightarrow> same_block s t"
  by (simp add: tick_progress_rel_def)

lemma rel_marked: "tick_progress_rel s t \<Longrightarrow> last_processed (nodes s m) = tick_count s \<Longrightarrow>
   last_processed (nodes t m) = tick_count s"
  by (simp add: tick_progress_rel_def)

lemma rel_calls_marked:
  "tick_progress_rel s t \<Longrightarrow> last_processed (nodes s m) = tick_count s \<Longrightarrow>
   process_calls (nodes t m) = process_calls (nodes s m)"
  by (auto simp: tick_progress_rel_def)

lemma rel_calls_unmarked:
  "tick_progress_rel s t \<Longrightarrow> last_processed (nodes t m) \<noteq> tick_count s \<Longrightarrow>
   process_calls (nodes t m) = process_calls (nodes s m)"
  by (auto simp: tick_progress_rel_def)

lemma same_block_producers: "same_block s t \<Longrightarrow> producers t m = producers s m"
  by (simp add: same_block_def same_graph_def producers_def)

lemma same_block_processes: "same_block s t \<Longrightarrow> processes t m = processes s m"
  by (simp add: same_block_def same_graph_def processes_def)

lemma same_block_tick_count: "same_block s t \<Longrightarrow> tick_count t = tick_count s"
  by (simp add: same_block_def)

lemma closed_refl: "tick_closed_rel s s"
  by (simp add: tick_closed_rel_def rel_refl)

lemma closed_trans:
  assumes ab: "tick_closed_rel a b" and bc: "tick_closed_rel b c"
  shows "tick_closed_rel a c"
proof -
  have rab: "tick_progress_rel a b" and rbc: "tick_progress_rel b c"
    using ab bc by (simp_all add: tick_closed_rel_def)
  have rac: "tick_progress_rel a c" using rab rbc by (rule rel_trans)
  have sb: "same_block a b" using rab by (rule rel_same_block)
  have tc: "tick_count b = tick_count a" using sb by (rule same_block_tick_count)
  have "process_calls (nodes c m) = Suc (process_calls (nodes a m)) \<and>
        (\<forall>p\<in>producers a m. last_processed (nodes c p) = tick_count a)"
    if new: "last_processed (nodes a m) \<noteq> tick_count a"
       "last_processed (nodes c m) = tick_count a" and pr: "processes a m" for m
  proof (cases "last_processed (nodes b m) = tick_count a")
    case True
    then have 1: "process_calls (nodes b m) = Suc (process_calls (nodes a m))"
      and 2: "\<forall>p\<in>producers a m. last_processed (nodes b p) = tick_count a"
      using ab new(1) pr by (simp_all add: tick_closed_rel_def)
    have "process_calls (nodes c m) = process_calls (nodes b m)"
      using rbc True tc by (simp add: rel_calls_marked)
    moreover have "\<forall>p\<in>producers a m. last_processed (nodes c p) = tick_count a"
    proof
      fix p assume "p \<in> producers a m"
      then have "last_processed (nodes b p) = tick_count b" using 2 tc by simp
      then have "last_processed (nodes c p) = tick_count b" by (rule rel_marked [OF rbc])
      then show "last_processed (nodes c p) = tick_count a" using tc by simp
    qed
    ultimately show ?thesis using 1 by simp
  next
    case False
    have prb: "processes b m" using pr sb by (simp add: same_block_processes)
    have 1: "process_calls (nodes c m) = Suc (process_calls (nodes b m))"
      and 2: "\<forall>p\<in>producers b m. last_processed (nodes c p) = tick_count b"
      using bc False new(2) prb tc by (simp_all add: tick_closed_rel_def)
    have "process_calls (nodes b m) = process_calls (nodes a m)"
      using rab False by (simp add: rel_calls_unmarked)
    then show ?thesis using 1 2 tc sb by (simp add: same_block_producers)
  qed
  with rac show ?thesis unfolding tick_closed_rel_def by blast
qed

lemma closed_input_buffers:
  "tick_closed_rel s (update_node n (\<lambda>nd. nd\<lparr>input_buffers := bufs nd\<rparr>) s)"
  by (simp add: tick_closed_rel_def rel_input_buffers)

lemma closed_output_buffers:
  "tick_closed_rel s (update_node n (\<lambda>nd. nd\<lparr>output_buffers := bufs nd\<rparr>) s)"
  by (simp add: tick_closed_rel_def rel_output_buffers)

lemma closed_marked:
  "tick_closed_rel s t \<Longrightarrow> last_processed (nodes s m) = tick_count s \<Longrightarrow>
   last_processed (nodes t m) = tick_count s"
  by (simp add: tick_closed_rel_def rel_marked)

lemma closed_tick_count: "tick_closed_rel s t \<Longrightarrow> tick_count t = tick_count s"
  by (simp add: tick_closed_rel_def tick_progress_rel_def same_block_def)

lemma InputConnection_add_closed:
  assumes tk: "\<And>p u u'. tk p u = Some u' \<Longrightarrow>
                 tick_closed_rel u u' \<and> last_processed (nodes u' p) = tick_count u"
  shows "InputConnection_add H tk mixing dest srcs s = Some s' \<Longrightarrow>
         tick_closed_rel s s' \<and>
         (\<forall>src\<in>set srcs. last_processed (nodes s' (fst src)) = tick_count s)"
proof (induction srcs arbitrary: s)
  case Nil
  then show ?case by (simp add: closed_refl)
next
  case (Cons src rest)
  let ?acc = "\<lambda>u. update_node (fst dest)
               (\<lambda>nd. nd\<lparr>input_buffers := accumulate H mixing src dest u\<rparr>) u"
  from Cons.prems obtain s1 where s1: "tk (fst src) s = Some s1"
    and rest: "InputConnection_add H tk mixing dest rest (?acc s1) = Some s'"
    by (auto split: option.splits)
  have c1: "tick_closed_rel s s1" and m1: "last_processed (nodes s1 (fst src)) = tick_count s"
    using tk [OF s1] by simp_all
  have c2: "tick_closed_rel s1 (?acc s1)" by (rule closed_input_buffers)
  have c12: "tick_closed_rel s (?acc s1)" using c1 c2 by (rule closed_trans)
  have tc: "tick_count (?acc s1) = tick_count s" using c12 by (rule closed_tick_count)
  have tc1: "tick_count s1 = tick_count s" using c1 by (rule closed_tick_count)
  have m2: "last_processed (nodes (?acc s1) (fst src)) = tick_count (?acc s1)"
    using m1 tc1 by auto
  from Cons.IH [OF rest] have c3: "tick_closed_rel (?acc s1) s'"
    and m3: "\<forall>x\<in>set rest. last_processed (nodes s' (fst x)) = tick_count s"
    using tc by simp_all
  have "tick_closed_rel s s'" using c12 c3 by (rule closed_trans)
  moreover have "last_processed (nodes s' (fst src)) = tick_count s"
    using closed_marked [OF c3 m2] tc by simp
  ultimately show ?case using m3 by simp
qed

lemma add_input_connections_closed:
  assumes tk: "\<And>p u u'. tk p u = Some u' \<Longrightarrow>
                 tick_closed_rel u u' \<and> last_processed (nodes u' p) = tick_count u"
  shows "add_input_connections H tk mixing n i ics s = Some s' \<Longrightarrow>
         tick_closed_rel s s' \<and>
         (\<forall>ic\<in>set ics. \<forall>src\<in>set (connected ic).
            last_processed (nodes s' (fst src)) = tick_count s)"
proof (induction ics arbitrary: s i)
  case Nil
  then show ?case by (simp add: closed_refl)
next
  case (Cons ic ics)
  from Cons.prems obtain s1 where
    s1: "InputConnection_add H tk mixing (n, i) (connected ic) s = Some s1"
    and rest: "add_input_connections H tk mixing n (Suc i) ics s1 = Some s'"
    by (auto split: option.splits)
  have c1: "tick_closed_rel s s1"
    and m1: "\<forall>src\<in>set (connected ic). last_processed (nodes s1 (fst src)) = tick_count s"
    using InputConnection_add_closed [OF tk s1] by simp_all
  have tc: "tick_count s1 = tick_count s" using c1 by (rule closed_tick_count)
  from Cons.IH [OF rest] have c2: "tick_closed_rel s1 s'"
    and m2: "\<forall>ic\<in>set ics. \<forall>src\<in>set (connected ic).
               last_processed (nodes s' (fst src)) = tick_count s"
    using tc by simp_all
  have "tick_closed_rel s s'" using c1 c2 by (rule closed_trans)
  moreover have "\<forall>src\<in>set (connected ic). last_processed (nodes s' (fst src)) = tick_count s"
    using m1 closed_marked [OF c2] tc by simp
  ultimately show ?case using m2 by simp
qed

lemma tick_producers_closed:
  assumes tk: "\<And>p u u'. tk p u = Some u' \<Longrightarrow>
                 tick_closed_rel u u' \<and> last_processed (nodes u' p) = tick_count u"
  shows "tick_producers tk srcs s = Some s' \<Longrightarrow>
         tick_closed_rel s s' \<and>
         (\<forall>src\<in>set srcs. last_processed (nodes s' (fst src)) = tick_count s)"
proof (induction srcs arbitrary: s)
  case Nil
  then show ?case by (simp add: closed_refl)
next
  case (Cons src rest)
  from Cons.prems obtain s1 where s1: "tk (fst src) s = Some s1"
    and rest: "tick_producers tk rest s1 = Some s'"
    by (auto split: option.splits)
  have c1: "tick_closed_rel s s1" and m1: "last_processed (nodes s1 (fst src)) = tick_count s"
    using tk [OF s1] by simp_all
  have tc: "tick_count s1 = tick_count s" using c1 by (rule closed_tick_count)
  from Cons.IH [OF rest] have c2: "tick_closed_rel s1 s'"
    and m2: "\<forall>x\<in>set rest. last_processed (nodes s' (fst x)) = tick_count s"
    using tc by simp_all
  have "tick_closed_rel s s'" using c1 c2 by (rule closed_trans)
  moreover have "last_processed (nodes s' (fst src)) = tick_count s"
    using closed_marked [OF c2] m1 tc by simp
  ultimately show ?case using m2 by simp
qed

lemma Node_tick_closed:
  assumes tk: "\<And>p u u'. tk p u = Some u' \<Longrightarrow>
                 tick_closed_rel u u' \<and> last_processed (nodes u' p) = tick_count u"
      and plain: "\<not> is_subgraph (nodes s n)"
      and run: "Node_tick H tk n s = Some s'"
  shows "tick_closed_rel s s' \<and> last_processed (nodes s' n) = tick_count s"
proof (cases "last_processed (nodes s n) = tick_count s")
  case True
  with run show ?thesis by (simp add: Node_tick_def Node_tick_gather_def closed_refl)
next
  case unmarked: False
  have rel: "tick_progress_rel s s'"
  proof (rule Node_tick_rel [OF _ run])
    fix p u u' assume "tk p u = Some u'"
    from tk [OF this] show "tick_progress_rel u u'" by (simp add: tick_closed_rel_def)
  qed
  show ?thesis
  proof (cases "node_state (nodes s n) = Lav_NODESTATE_PAUSED")
    case True
    with run unmarked have s': "s' = Node_zeroOutputBuffers n
        (update_node n (\<lambda>nd. nd\<lparr>last_processed := tick_count s\<rparr>) s)"
      by (simp add: Node_tick_def Node_tick_gather_def Node_zeroOutputBuffers_def Let_def)
    have lp: "\<And>m. last_processed (nodes s' m) =
                (if m = n then tick_count s else last_processed (nodes s m))"
      by (simp add: s' Node_zeroOutputBuffers_def)
    have "tick_closed_rel s s'"
      using rel True lp by (auto simp: tick_closed_rel_def processes_def split: if_splits)
    then show ?thesis using lp by simp
  next
    case playing: False
    let ?s2 = "Node_prepare H n s"
    from run unmarked playing obtain s3 where
      loop: "add_input_connections H tk
               (channel_interpretation (nodes ?s2 n) = Lav_CHANNEL_INTERPRETATION_SPEAKERS)
               n 0 (input_connections (nodes ?s2 n)) ?s2 = Some s3"
      and s': "s' = Node_apply_mul_add n (Node_process H n s3)"
      by (auto simp: Node_tick_def Node_tick_gather_def Node_prepare_def Let_def
          Node_zeroOutputBuffers_def split: option.splits)
    have tc2: "tick_count ?s2 = tick_count s" by (rule Node_prepare_fields(1))
    have sb2: "same_block s ?s2" by (rule Node_prepare_fields(4))
    from add_input_connections_closed [OF tk loop]
    have c23: "tick_closed_rel ?s2 s3"
      and fed: "\<forall>ic\<in>set (input_connections (nodes ?s2 n)). \<forall>src\<in>set (connected ic).
                  last_processed (nodes s3 (fst src)) = tick_count s"
      using tc2 by simp_all
    have r23: "tick_progress_rel ?s2 s3" using c23 by (simp add: tick_closed_rel_def)
    have ics: "input_connections (nodes ?s2 n) = input_connections (nodes s n)"
      using sb2 by (simp add: same_block_def same_graph_def)
    have lp': "\<And>m. last_processed (nodes s' m) = last_processed (nodes s3 m)"
      by (simp add: s' Node_finish_fields(2))
    have marked_n: "last_processed (nodes s3 n) = tick_count s"
      using rel_marked [OF r23, of n] tc2 Node_prepare_fields(2) [of H n s n] by simp
    have "process_calls (nodes s' m) = Suc (process_calls (nodes s m)) \<and>
          (\<forall>p\<in>producers s m. last_processed (nodes s' p) = tick_count s)"
      if new: "last_processed (nodes s m) \<noteq> tick_count s"
        "last_processed (nodes s' m) = tick_count s" and pr: "processes s m" for m
    proof (cases "m = n")
      case True
      have "process_calls (nodes s3 n) = process_calls (nodes ?s2 n)"
        using rel_calls_marked [OF r23, of n] tc2 Node_prepare_fields(2) [of H n s n] by simp
      then have "process_calls (nodes s' n) = Suc (process_calls (nodes s n))"
        by (simp add: s' Node_finish_fields(3) Node_prepare_fields(3))
      moreover have "\<forall>p\<in>producers s n. last_processed (nodes s' p) = tick_count s"
        using fed ics lp' by (auto simp: producers_def)
      ultimately show ?thesis using True by simp
    next
      case False
      have new2: "last_processed (nodes ?s2 m) \<noteq> tick_count ?s2"
        using new(1) False tc2 Node_prepare_fields(2) [of H n s m] by simp
      have new3: "last_processed (nodes s3 m) = tick_count ?s2"
        using new(2) lp' tc2 by simp
      have pr2: "processes ?s2 m" using pr sb2 by (simp add: same_block_processes)
      have 1: "process_calls (nodes s3 m) = Suc (process_calls (nodes ?s2 m))"
        and 2: "\<forall>p\<in>producers ?s2 m. last_processed (nodes s3 p) = tick_count ?s2"
        using c23 new2 new3 pr2 by (simp_all add: tick_closed_rel_def)
      have "process_calls (nodes s' m) = Suc (process_calls (nodes s m))"
        using 1 False by (simp add: s' Node_finish_fields(3) Node_prepare_fields(3))
      moreover have "\<forall>p\<in>producers s m. last_processed (nodes s' p) = tick_count s"
        using 2 sb2 tc2 lp' by (simp add: same_block_producers)
      ultimately show ?thesis by simp
    qed
    with rel have "tick_closed_rel s s'" unfolding tick_closed_rel_def by blast
    then show ?thesis using marked_n lp' by simp
  qed
qed

lemma SubgraphNode_tick_closed:
  assumes tk: "\<And>p u u'. tk p u = Some u' \<Longrightarrow>
                 tick_closed_rel u u' \<and> last_processed (nodes u' p) = tick_count u"
      and sub: "is_subgraph (nodes s n)"
      and run: "SubgraphNode_tick H f tk n s = Some s'"
  shows "tick_closed_rel s s' \<and> last_processed (nodes s' n) = tick_count s"
proof -
  let ?s1 = "update_node n (\<lambda>nd. nd\<lparr>last_processed := tick_count s\<rparr>) s"
  let ?s2 = "Node_willProcessParents H n (Node_tickProperties H n ?s1)"
  have r2: "tick_progress_rel s ?s2"
    using SubgraphNode_mark_rel [of s n] SubgraphNode_prepare_rel [of ?s1 H n]
    by (blast intro: rel_trans)
  have lp2: "\<And>m. last_processed (nodes ?s2 m) =
                (if m = n then tick_count s else last_processed (nodes s m))"
    by (simp add: Node_willProcessParents_def Node_tickProperties_def)
  have c2: "tick_closed_rel s ?s2"
    using r2 lp2 sub by (auto simp: tick_closed_rel_def processes_def split: if_splits)
  have r1: "tick_progress_rel s ?s1" by (rule SubgraphNode_mark_rel)
  have c1: "tick_closed_rel s ?s1"
    using r1 sub by (auto simp: tick_closed_rel_def processes_def split: if_splits)
  have tc2: "tick_count ?s2 = tick_count s"
    by (simp add: Node_willProcessParents_def Node_tickProperties_def)
  consider (already) "s' = s" "last_processed (nodes s n) = tick_count s"
    | (paused) "s' = ?s1" | (no_output) "s' = ?s2"
    | (ticked) out s3 where "tk out ?s2 = Some s3"
        "SubgraphNode_apply_mul_add f n s3 = Some s'"
    using run
    by (auto simp: SubgraphNode_tick_def Let_def split: if_splits option.splits)
  then show ?thesis
  proof cases
    case already
    then show ?thesis by (simp add: closed_refl)
  next
    case paused
    then show ?thesis using c1 by simp
  next
    case no_output
    then show ?thesis using c2 lp2 by simp
  next
    case ticked
    have c23: "tick_closed_rel ?s2 s3" using tk [OF ticked(1)] by simp
    have tc3: "tick_count s3 = tick_count s"
      using closed_tick_count [OF c23] tc2 by simp
    have c3: "tick_closed_rel s3 s'"
      using ticked(2)
      by (auto simp: SubgraphNode_apply_mul_add_def closed_refl closed_output_buffers
          split: option.splits)
    have c: "tick_closed_rel s s'"
      using c2 c23 c3 by (blast intro: closed_trans)
    have "last_processed (nodes s3 n) = tick_count ?s2"
      using closed_marked [OF c23, of n] lp2 tc2 by simp
    then have "last_processed (nodes s' n) = tick_count s"
      using closed_marked [OF c3, of n] tc3 tc2 by simp
    then show ?thesis using c by simp
  qed
qed

lemma tick_closed:
  "tick H f n s = Some s' \<Longrightarrow>
   tick_closed_rel s s' \<and> last_processed (nodes s' n) = tick_count s"
proof (induction f arbitrary: n s s')
  case 0
  then show ?case by simp
next
  case (Suc f)
  show ?case
  proof (cases "is_subgraph (nodes s n)")
    case True
    with Suc.prems have "SubgraphNode_tick H (Suc f) (tick H f) n s = Some s'" by simp
    then show ?thesis
      using SubgraphNode_tick_closed [of "tick H f", OF Suc.IH True] by blast
  next
    case False
    with Suc.prems have "Node_tick H (tick H f) n s = Some s'" by simp
    then show ?thesis
      using Node_tick_closed [of "tick H f", OF Suc.IH False] by blast
  qed
qed

lemma closed_reaches:
  assumes fresh: "\<forall>m. last_processed (nodes s m) \<noteq> tick_count s"
      and closed: "tick_closed_rel s t"
      and root: "last_processed (nodes t r) = tick_count s"
      and path: "(n, r) \<in> (pulls s)\<^sup>*"
  shows "last_processed (nodes t n) = tick_count s"
  using path root
proof (induction rule: converse_rtrancl_induct)
  case base
  then show ?case by simp
next
  case (step n m)
  then have m: "last_processed (nodes t m) = tick_count s" by simp
  from step.hyps(1) have "processes s m" "n \<in> producers s m"
    by (simp_all add: pulls_def)
  then show ?case using closed fresh m by (auto simp: tick_closed_rel_def)
qed

lemma closed_once:
  assumes fresh: "\<forall>m. last_processed (nodes s m) \<noteq> tick_count s"
      and closed: "tick_closed_rel s t"
      and root: "last_processed (nodes t r) = tick_count s"
      and path: "(n, r) \<in> (pulls s)\<^sup>*"
      and pr: "processes s n"
  shows "process_calls (nodes t n) = Suc (process_calls (nodes s n))"
proof -
  have "last_processed (nodes t n) = tick_count s"
    using fresh closed root path by (rule closed_reaches)
  then show ?thesis using closed fresh pr by (auto simp: tick_closed_rel_def)
qed

lemma tick_once:
  assumes "\<forall>m. last_processed (nodes s m) \<noteq> tick_count s"
      and "tick H f r s = Some t" and "(n, r) \<in> (pulls s)\<^sup>*" and "processes s n"
  shows "process_calls (nodes t n) = Suc (process_calls (nodes s n))"
  using assms tick_closed [of H f r s t] closed_once [of s t r n] by blast

lemma Simulation_tick_once:
  assumes fresh: "\<forall>m. last_processed (nodes s m) \<noteq> tick_count s + 1"
      and run: "Simulation_tick H f s = Some t"
      and root: "r \<in> set (map fst (final_output_connection s))"
      and path: "(n, r) \<in> (pulls s)\<^sup>*" and pr: "processes s n"
  shows "process_calls (nodes t n) = Suc (process_calls (nodes s n))"
proof -
  let ?s1 = "s\<lparr>tick_count := tick_count s + 1\<rparr>"
  have run1: "tick_producers (tick H f) (final_output_connection ?s1) ?s1 = Some t"
    using run by (simp add: Simulation_tick_def)
  have "tick_closed_rel ?s1 t \<and>
        (\<forall>src\<in>set (final_output_connection ?s1).
           last_processed (nodes t (fst src)) = tick_count ?s1)"
    by (rule tick_producers_closed [OF _ run1]) (rule tick_closed)
  then have closed: "tick_closed_rel ?s1 t"
    and rt: "last_processed (nodes t r) = tick_count ?s1"
    using root by auto
  have same: "pulls ?s1 = pulls s" "processes ?s1 n = processes s n"
    by (simp_all add: pulls_def processes_def producers_def)
  have "process_calls (nodes t n) = Suc (process_calls (nodes ?s1 n))"
    by (rule closed_once [OF _ closed rt]) (use fresh path pr same in auto)
  then show ?thesis by simp
qed

subsection \<open>Examples of one block\<close>

lemma diamond_calls:
  "map_option (\<lambda>t. map (\<lambda>n. process_calls (nodes t n)) [0, 1, 2, 3])
     (Simulation_tick example_hooks 4 diamond) = Some [1, 1, 1, 1]"
  by code_simp

lemma diamond_fresh:
  "(\<forall>m. last_processed (nodes diamond m) \<noteq> tick_count diamond + 1) \<and>
   process_calls (nodes diamond 0) = 0 \<and> processes diamond 0 \<and>
   3 \<in> set (map fst (final_output_connection diamond))"
  by (simp add: diamond_def consumer_node_def source_node_def plain_node_def processes_def)

lemma diamond_pulls: "(0, 3) \<in> (pulls diamond)\<^sup>*"
proof -
  have "(0, 1) \<in> pulls diamond" "(1, 3) \<in> pulls diamond"
    by (simp_all add: pulls_def processes_def producers_def diamond_def consumer_node_def
        source_node_def plain_node_def)
  then show ?thesis by (meson converse_rtrancl_into_rtrancl rtrancl.rtrancl_refl)
qed

text \<open>
  C1. Within one server tick a node's \<^verbatim>\<open>process()\<close> runs once, however many consumers
  pull from it. A \<^verbatim>\<open>tick\<close> of a node whose \<^verbatim>\<open>last_processed\<close> is the current \<^verbatim>\<open>tick_count\<close>
  returns at once and changes nothing; a \<^verbatim>\<open>tick\<close> from any root, and a whole server tick
  from the final connection, raise the number of \<^verbatim>\<open>process()\<close> calls of every node by
  zero or one, and by zero for a node already processed in this block; and a server
  tick that returns raises it by exactly one for every processing node from which a
  producer of the final connection is reached along connections through processing
  nodes, when no node carries the number of the new block yet.
\<close>

theorem process_once_per_tick:
  "(last_processed (nodes s n) = tick_count s \<longrightarrow> tick H (Suc f) n s = Some s) \<and>
   (tick H f r s = Some t \<longrightarrow>
      (process_calls (nodes t n) = process_calls (nodes s n) \<or>
       process_calls (nodes t n) = Suc (process_calls (nodes s n))) \<and>
      (last_processed (nodes s n) = tick_count s \<longrightarrow>
       process_calls (nodes t n) = process_calls (nodes s n))) \<and>
   (Simulation_tick H f s = Some t \<longrightarrow>
      process_calls (nodes t n) = process_calls (nodes s n) \<or>
      process_calls (nodes t n) = Suc (process_calls (nodes s n))) \<and>
   (Simulation_tick H f s = Some t \<and>
    (\<forall>m. last_processed (nodes s m) \<noteq> tick_count s + 1) \<and>
    q \<in> set (map fst (final_output_connection s)) \<and>
    (n, q) \<in> (pulls s)\<^sup>* \<and> processes s n \<longrightarrow>
      process_calls (nodes t n) = Suc (process_calls (nodes s n)))"
proof (intro conjI impI)
  assume "last_processed (nodes s n) = tick_count s"
  then show "tick H (Suc f) n s = Some s"
    by (simp add: Node_tick_def Node_tick_gather_def SubgraphNode_tick_def)
next
  assume "tick H f r s = Some t"
  then have rel: "tick_progress_rel s t" by (rule tick_rel)
  then show "process_calls (nodes t n) = process_calls (nodes s n) \<or>
       process_calls (nodes t n) = Suc (process_calls (nodes s n))"
    by (auto simp: tick_progress_rel_def)
  assume "last_processed (nodes s n) = tick_count s"
  with rel show "process_calls (nodes t n) = process_calls (nodes s n)"
    by (rule rel_calls_marked)
next
  assume "Simulation_tick H f s = Some t"
  then show "process_calls (nodes t n) = process_calls (nodes s n) \<or>
      process_calls (nodes t n) = Suc (process_calls (nodes s n))"
    by (rule Simulation_tick_calls)
next
  assume "Simulation_tick H f s = Some t \<and>
    (\<forall>m. last_processed (nodes s m) \<noteq> tick_count s + 1) \<and>
    q \<in> set (map fst (final_output_connection s)) \<and>
    (n, q) \<in> (pulls s)\<^sup>* \<and> processes s n"
  then show "process_calls (nodes t n) = Suc (process_calls (nodes s n))"
    using Simulation_tick_once [of s H f t q n] by blast
qed

text \<open>
  In the diamond, where node 0 feeds two consumers that both feed node 3, the server
  tick calls \<^verbatim>\<open>process()\<close> of each of the four nodes exactly once.
\<close>

theorem process_once_per_tick_witness:
  "\<exists>t. Simulation_tick example_hooks 4 diamond = Some t \<and>
       process_calls (nodes diamond 0) = 0 \<and>
       process_calls (nodes t 0) = Suc (process_calls (nodes diamond 0)) \<and>
       process_calls (nodes t 0) = 1 \<and> process_calls (nodes t 1) = 1 \<and>
       process_calls (nodes t 2) = 1 \<and> process_calls (nodes t 3) = 1"
proof -
  from diamond_calls obtain t where t: "Simulation_tick example_hooks 4 diamond = Some t"
    and calls: "map (\<lambda>n. process_calls (nodes t n)) [0, 1, 2, 3] = [1, 1, 1, 1]"
    by (auto simp del: upt_Suc)
  have "process_calls (nodes t 0) = Suc (process_calls (nodes diamond 0))"
    using process_once_per_tick [of diamond 0 example_hooks 4 0 t 3] t diamond_fresh
      diamond_pulls by blast
  then show ?thesis using t calls diamond_fresh by auto
qed

subsection \<open>Paused nodes\<close>

lemma Node_tick_paused:
  assumes "\<not> is_subgraph (nodes s n)"
      and "node_state (nodes s n) = Lav_NODESTATE_PAUSED"
      and "last_processed (nodes s n) \<noteq> tick_count s"
  shows "\<exists>t. tick H (Suc f) n s = Some t \<and>
             output_buffers (nodes t n) =
               map (\<lambda>b. replicate (block_size s) 0) (output_buffers (nodes s n)) \<and>
             process_calls (nodes t n) = process_calls (nodes s n)"
  using assms
  by (simp add: Node_tick_def Node_tick_gather_def Node_zeroOutputBuffers_def Let_def)

lemma SubgraphNode_tick_paused:
  assumes "is_subgraph (nodes s n)"
      and "node_state (nodes s n) = Lav_NODESTATE_PAUSED"
      and "last_processed (nodes s n) \<noteq> tick_count s"
  shows "\<exists>t. tick H (Suc f) n s = Some t \<and>
             (\<forall>m. output_buffers (nodes t m) = output_buffers (nodes s m))"
  using assms
  by (simp add: SubgraphNode_tick_def Let_def)

text \<open>
  C2. The claim: a paused node's \<^verbatim>\<open>tick\<close> zeroes its output buffers and does not call
  \<^verbatim>\<open>process()\<close>, also for a subgraph node, whose outputs are its output node's buffers.
  \<^verbatim>\<open>Node::tick\<close> does so (\<open>Node_tick_paused\<close>). \<^verbatim>\<open>SubgraphNode::tick\<close> returns before it
  has touched a buffer: the paused subgraph node 0, whose output node holds the block
  of ones of the previous tick, still presents that block after its tick.
\<close>

theorem paused_subgraph_keeps_stale_output:
  "node_state (nodes paused_subgraph 0) = Lav_NODESTATE_PAUSED \<and>
   is_subgraph (nodes paused_subgraph 0) \<and>
   last_processed (nodes paused_subgraph 0) \<noteq> tick_count paused_subgraph \<and>
   map_option (\<lambda>t. Node_getOutputBufferArray 2 t 0) (tick example_hooks 2 0 paused_subgraph) =
     Some (Some [[1, 1]])"
  by code_simp

subsection \<open>Gain and bias\<close>

lemma scalarMultiplicationKernel_nth:
  "i < n \<Longrightarrow> i < length xs \<Longrightarrow> scalarMultiplicationKernel n c xs ! i = c * xs ! i"
  by (simp add: scalarMultiplicationKernel_def nth_append)

lemma scalarAdditionKernel_nth:
  "i < n \<Longrightarrow> i < length xs \<Longrightarrow> scalarAdditionKernel n c xs ! i = c + xs ! i"
  by (simp add: scalarAdditionKernel_def nth_append)

lemma kernel_lengths:
  "length (scalarMultiplicationKernel n c xs) = length xs"
  "length (scalarAdditionKernel n c xs) = length xs"
  by (simp_all add: scalarMultiplicationKernel_def scalarAdditionKernel_def)

lemma apply_mul_krate:
  assumes "\<not> needsARate p" and "j < length ys" and "i < length (ys ! j)" and "i < bs"
  shows "length (apply_mul bs p ys) = length ys \<and>
         length (apply_mul bs p ys ! j) = length (ys ! j) \<and>
         apply_mul bs p ys ! j ! i = getFloatValue p * (ys ! j ! i)"
  using assms
  by (simp add: apply_mul_def scalarMultiplicationKernel_nth kernel_lengths)

lemma apply_add_krate:
  assumes "\<not> needsARate p" and "j < length ys" and "i < length (ys ! j)" and "i < bs"
  shows "length (apply_add bs p ys) = length ys \<and>
         length (apply_add bs p ys ! j) = length (ys ! j) \<and>
         apply_add bs p ys ! j ! i = ys ! j ! i + getFloatValue p"
  using assms
  by (simp add: apply_add_def scalarAdditionKernel_nth kernel_lengths)

lemma apply_mul_add_krate:
  assumes "\<not> needsARate mp" and "\<not> needsARate ap"
      and "j < length ys" and "i < length (ys ! j)" and "i < bs"
  shows "length (apply_add bs ap (apply_mul bs mp ys)) = length ys \<and>
         apply_add bs ap (apply_mul bs mp ys) ! j ! i =
           getFloatValue mp * (ys ! j ! i) + getFloatValue ap"
proof -
  note m = apply_mul_krate [OF assms(1,3,4,5)]
  have "j < length (apply_mul bs mp ys)" using m assms(3) by simp
  moreover have "i < length (apply_mul bs mp ys ! j)" using m assms(4) by simp
  ultimately show ?thesis
    using apply_add_krate [OF assms(2), of j "apply_mul bs mp ys" i bs] m assms(5)
    by simp
qed

text \<open>
  C3. For a node that is not a subgraph node, was not yet processed in this block and
  is not paused (its \<^verbatim>\<open>tick\<close> has gathered its inputs), with k-rate \<^verbatim>\<open>mul = m\<close> and
  k-rate \<^verbatim>\<open>add = a\<close>: after \<^verbatim>\<open>tick\<close> every sample \<open>i\<close> of the block in every output buffer
  \<open>j\<close> is \<open>m * y + a\<close>, where \<open>y\<close> is the sample \<^verbatim>\<open>process()\<close> left there. This holds for
  all \<open>m\<close> and \<open>a\<close>, also for \<open>m = 1\<close> and \<open>a = 0\<close>, where the code skips the kernel.
  Samples are real numbers here; in floating point the skipped operations \<open>y * 1.0\<close>
  and \<open>y + 0.0\<close> return \<open>y\<close> (up to the sign of a zero).
\<close>

theorem Node_tick_applies_mul_then_add:
  assumes "\<not> is_subgraph (nodes s n)"
      and "Node_tick_gather H (tick H f) n s = Some (Gathered s3)"
      and "y = output_buffers (nodes (Node_process H n s3) n)"
      and "\<not> needsARate (mul_prop (nodes s3 n))"
      and "getFloatValue (mul_prop (nodes s3 n)) = m"
      and "\<not> needsARate (add_prop (nodes s3 n))"
      and "getFloatValue (add_prop (nodes s3 n)) = a"
      and "j < length y" and "i < length (y ! j)" and "i < block_size s3"
  shows "\<exists>t. tick H (Suc f) n s = Some t \<and>
             length (output_buffers (nodes t n)) = length y \<and>
             output_buffers (nodes t n) ! j ! i = m * (y ! j ! i) + a"
proof -
  let ?s4 = "Node_process H n s3"
  have t: "tick H (Suc f) n s = Some (Node_apply_mul_add n ?s4)"
    using assms(1,2) by (simp add: Node_tick_def)
  have props: "mul_prop (nodes ?s4 n) = mul_prop (nodes s3 n)"
    "add_prop (nodes ?s4 n) = add_prop (nodes s3 n)" "block_size ?s4 = block_size s3"
    by (simp_all add: Node_process_def Let_def)
  have out: "output_buffers (nodes (Node_apply_mul_add n ?s4) n) =
       apply_add (block_size s3) (add_prop (nodes s3 n))
         (apply_mul (block_size s3) (mul_prop (nodes s3 n)) y)"
    using props assms(3) by (simp add: Node_apply_mul_add_def)
  show ?thesis
    using t out apply_mul_add_krate [OF assms(4,6,8,9,10)] assms(5,7) by simp
qed

lemma gain_sim_gather:
  "Node_tick_gather example_hooks (tick example_hooks 0) 0 gain_sim =
     Some (Gathered (Node_prepare example_hooks 0 gain_sim))"
  by (simp add: Node_tick_gather_def Node_prepare_def Let_def gain_sim_def
      Node_zeroOutputBuffers_def source_node_def plain_node_def
      Node_zeroInputBuffers_def Node_willProcessParents_def Node_tickProperties_def)

lemma gain_sim_processed:
  "output_buffers (nodes (Node_process example_hooks 0
     (Node_prepare example_hooks 0 gain_sim)) 0) = [[1, 1]] \<and>
   \<not> is_subgraph (nodes gain_sim 0) \<and>
   \<not> needsARate (mul_prop (nodes (Node_prepare example_hooks 0 gain_sim) 0)) \<and>
   getFloatValue (mul_prop (nodes (Node_prepare example_hooks 0 gain_sim) 0)) = 3 \<and>
   \<not> needsARate (add_prop (nodes (Node_prepare example_hooks 0 gain_sim) 0)) \<and>
   getFloatValue (add_prop (nodes (Node_prepare example_hooks 0 gain_sim) 0)) = 1 / 2 \<and>
   block_size (Node_prepare example_hooks 0 gain_sim) = 2"
  by code_simp

theorem Node_tick_applies_mul_then_add_witness:
  "\<exists>t. tick example_hooks (Suc 0) 0 gain_sim = Some t \<and>
       length (output_buffers (nodes t 0)) = length [[1, 1 :: real]] \<and>
       output_buffers (nodes t 0) ! 0 ! 1 = 3 * ([[1, 1]] ! 0 ! 1) + 1 / 2"
  using Node_tick_applies_mul_then_add [of gain_sim 0 example_hooks 0
      "Node_prepare example_hooks 0 gain_sim" "[[1, 1]]" 3 "1 / 2" 0 1]
    gain_sim_gather gain_sim_processed
  by simp

subsection \<open>Termination\<close>

lemma bound_for_all:
  "(\<And>x. x \<in> set xs \<Longrightarrow> \<exists>f0::nat. \<forall>f\<ge>f0. P x f) \<Longrightarrow> \<exists>f0. \<forall>f\<ge>f0. \<forall>x\<in>set xs. P x f"
proof (induction xs)
  case Nil
  then show ?case by simp
next
  case (Cons x xs)
  from Cons.prems obtain fx where fx: "\<forall>f\<ge>fx. P x f" by (meson list.set_intros(1))
  from Cons obtain fxs where fxs: "\<forall>f\<ge>fxs. \<forall>y\<in>set xs. P y f" by (meson list.set_intros(2))
  have "\<forall>f\<ge>max fx fxs. \<forall>y\<in>set (x # xs). P y f"
    using fx fxs by simp
  then show ?case by blast
qed

lemma same_graph_sym: "same_graph s t \<Longrightarrow> same_graph t s"
  by (simp add: same_graph_def)

lemma same_graph_refl: "same_graph s s"
  by (simp add: same_graph_def)

lemma same_graph_refs: "same_graph s t \<Longrightarrow> node_refs t n = node_refs s n"
  by (simp add: same_graph_def node_refs_def)

lemma same_graph_connection_graph: "same_graph s t \<Longrightarrow> connection_graph t = connection_graph s"
  by (simp add: connection_graph_def same_graph_refs)

lemma outputBufferOwner_same_graph:
  "same_graph s t \<Longrightarrow> outputBufferOwner f t n = outputBufferOwner f s n"
  by (induction f s n rule: outputBufferOwner.induct)
     (auto simp: same_graph_def split: option.splits)

lemma inputConnectionOwner_same_graph:
  "same_graph s t \<Longrightarrow> inputConnectionOwner f t n = inputConnectionOwner f s n"
  by (induction f s n rule: inputConnectionOwner.induct)
     (auto simp: same_graph_def split: option.splits)

lemma subgraph_output_edge:
  "subgraph_output (nodes s n) = Some m \<Longrightarrow> (m, n) \<in> connection_graph s"
  by (simp add: connection_graph_def node_refs_def)

lemma subgraph_input_edge:
  "subgraph_input (nodes s n) = Some m \<Longrightarrow> (m, n) \<in> connection_graph s"
  by (simp add: connection_graph_def node_refs_def)

lemma producer_edge:
  "ic \<in> set (input_connections (nodes s n)) \<Longrightarrow> src \<in> set (connected ic) \<Longrightarrow>
   (fst src, n) \<in> connection_graph s"
  by (auto simp: connection_graph_def node_refs_def)

lemma property_producer_edge:
  "pc \<in> set (property_connections (nodes s n)) \<Longrightarrow> src \<in> set (snd pc) \<Longrightarrow>
   (fst src, n) \<in> connection_graph s"
  by (auto simp: connection_graph_def node_refs_def)

lemma outputBufferOwner_returns:
  assumes "wf (connection_graph s)"
  shows "\<exists>f0. \<forall>f\<ge>f0. outputBufferOwner f s n \<noteq> None"
  using assms
proof (induction n rule: wf_induct_rule)
  case (less n)
  show ?case
  proof (cases "is_subgraph (nodes s n)")
    case False
    then have "\<forall>f\<ge>Suc 0. outputBufferOwner f s n \<noteq> None"
      by (auto simp: Suc_le_eq gr0_conv_Suc)
    then show ?thesis by blast
  next
    case True
    show ?thesis
    proof (cases "subgraph_output (nodes s n)")
      case None
      with True have "\<forall>f\<ge>Suc 0. outputBufferOwner f s n \<noteq> None"
        by (auto simp: Suc_le_eq gr0_conv_Suc)
      then show ?thesis by blast
    next
      case (Some m)
      then obtain f0 where f0: "\<forall>f\<ge>f0. outputBufferOwner f s m \<noteq> None"
        using less.IH subgraph_output_edge by blast
      have "\<forall>f\<ge>Suc f0. outputBufferOwner f s n \<noteq> None"
      proof (intro allI impI)
        fix f assume "Suc f0 \<le> f"
        then obtain f' where "f = Suc f'" "f0 \<le> f'" by (cases f) auto
        then show "outputBufferOwner f s n \<noteq> None" using True Some f0 by simp
      qed
      then show ?thesis by blast
    qed
  qed
qed

lemma inputConnectionOwner_returns:
  assumes "wf (connection_graph s)"
  shows "\<exists>f0. \<forall>f\<ge>f0. inputConnectionOwner f s n \<noteq> None"
  using assms
proof (induction n rule: wf_induct_rule)
  case (less n)
  show ?case
  proof (cases "is_subgraph (nodes s n)")
    case False
    then have "\<forall>f\<ge>Suc 0. inputConnectionOwner f s n \<noteq> None"
      by (auto simp: Suc_le_eq gr0_conv_Suc)
    then show ?thesis by blast
  next
    case True
    show ?thesis
    proof (cases "subgraph_input (nodes s n)")
      case None
      with True have "\<forall>f\<ge>Suc 0. inputConnectionOwner f s n \<noteq> None"
        by (auto simp: Suc_le_eq gr0_conv_Suc)
      then show ?thesis by blast
    next
      case (Some m)
      then obtain f0 where f0: "\<forall>f\<ge>f0. inputConnectionOwner f s m \<noteq> None"
        using less.IH subgraph_input_edge by blast
      have "\<forall>f\<ge>Suc f0. inputConnectionOwner f s n \<noteq> None"
      proof (intro allI impI)
        fix f assume "Suc f0 \<le> f"
        then obtain f' where "f = Suc f'" "f0 \<le> f'" by (cases f) auto
        then show "inputConnectionOwner f s n \<noteq> None" using True Some f0 by simp
      qed
      then show ?thesis by blast
    qed
  qed
qed

lemma InputConnection_add_returns:
  assumes keep: "\<And>p t t'. tk p t = Some t' \<Longrightarrow> same_graph t t'"
  shows "same_graph s t \<Longrightarrow>
         \<forall>src\<in>set srcs. \<forall>u. same_graph s u \<longrightarrow> tk (fst src) u \<noteq> None \<Longrightarrow>
         InputConnection_add H tk mixing dest srcs t \<noteq> None"
proof (induction srcs arbitrary: t)
  case Nil
  then show ?case by simp
next
  case (Cons src rest)
  from Cons.prems obtain t1 where t1: "tk (fst src) t = Some t1" by fastforce
  let ?t2 = "update_node (fst dest)
               (\<lambda>nd. nd\<lparr>input_buffers := accumulate H mixing src dest t1\<rparr>) t1"
  have "same_graph t t1" using keep t1 by blast
  moreover have "same_graph t1 ?t2" by (simp add: same_graph_def)
  ultimately have "same_graph s ?t2" using Cons.prems(1) by (blast intro: same_graph_trans)
  then have "InputConnection_add H tk mixing dest rest ?t2 \<noteq> None"
    using Cons.IH Cons.prems(2) by simp
  then show ?case using t1 by simp
qed

lemma InputConnection_add_same_graph:
  assumes keep: "\<And>p t t'. tk p t = Some t' \<Longrightarrow> same_graph t t'"
  shows "InputConnection_add H tk mixing dest srcs t = Some t' \<Longrightarrow> same_graph t t'"
proof (induction srcs arbitrary: t)
  case Nil
  then show ?case by (simp add: same_graph_refl)
next
  case (Cons src rest)
  from Cons.prems obtain t1 where t1: "tk (fst src) t = Some t1"
    and rest: "InputConnection_add H tk mixing dest rest
            (update_node (fst dest)
               (\<lambda>nd. nd\<lparr>input_buffers := accumulate H mixing src dest t1\<rparr>) t1) = Some t'"
    by (auto split: option.splits)
  have "same_graph t t1" using keep t1 by blast
  moreover have "same_graph t1 (update_node (fst dest)
               (\<lambda>nd. nd\<lparr>input_buffers := accumulate H mixing src dest t1\<rparr>) t1)"
    by (simp add: same_graph_def)
  moreover note Cons.IH [OF rest]
  ultimately show ?case by (blast intro: same_graph_trans)
qed

lemma add_input_connections_returns:
  assumes keep: "\<And>p t t'. tk p t = Some t' \<Longrightarrow> same_graph t t'"
  shows "same_graph s t \<Longrightarrow>
         \<forall>ic\<in>set ics. \<forall>src\<in>set (connected ic). \<forall>u. same_graph s u \<longrightarrow> tk (fst src) u \<noteq> None \<Longrightarrow>
         add_input_connections H tk mixing n i ics t \<noteq> None"
proof (induction ics arbitrary: t i)
  case Nil
  then show ?case by simp
next
  case (Cons ic ics)
  have "InputConnection_add H tk mixing (n, i) (connected ic) t \<noteq> None"
    using InputConnection_add_returns [OF keep Cons.prems(1)] Cons.prems(2) by simp
  then obtain t1 where t1: "InputConnection_add H tk mixing (n, i) (connected ic) t = Some t1"
    by blast
  have "same_graph t t1" by (rule InputConnection_add_same_graph [OF keep t1])
  then have "same_graph s t1" using Cons.prems(1) by (blast intro: same_graph_trans)
  then have "add_input_connections H tk mixing n (Suc i) ics t1 \<noteq> None"
    using Cons.IH Cons.prems(2) by simp
  then show ?case using t1 by simp
qed

lemma tick_producers_returns:
  assumes keep: "\<And>p t t'. tk p t = Some t' \<Longrightarrow> same_graph t t'"
  shows "same_graph s t \<Longrightarrow>
         \<forall>src\<in>set srcs. \<forall>u. same_graph s u \<longrightarrow> tk (fst src) u \<noteq> None \<Longrightarrow>
         tick_producers tk srcs t \<noteq> None"
proof (induction srcs arbitrary: t)
  case Nil
  then show ?case by simp
next
  case (Cons src rest)
  from Cons.prems obtain t1 where t1: "tk (fst src) t = Some t1" by fastforce
  have "same_graph t t1" using keep t1 by blast
  then have "same_graph s t1" using Cons.prems(1) by (blast intro: same_graph_trans)
  then have "tick_producers tk rest t1 \<noteq> None"
    using Cons.IH Cons.prems(2) by simp
  then show ?case using t1 by simp
qed

lemma tick_same_graph: "tick H f n s = Some s' \<Longrightarrow> same_graph s s'"
  using tick_rel [of H f n s s'] by (simp add: tick_progress_rel_def same_block_def)

lemma Node_prepare_same_graph: "same_graph s (Node_prepare H n s)"
  using Node_prepare_fields(4) [of s H n] by (simp add: same_block_def)

lemma tick_returns:
  assumes wf: "wf (connection_graph s)"
  shows "\<exists>f0. \<forall>f\<ge>f0. \<forall>t. same_graph s t \<longrightarrow> tick H f n t \<noteq> None"
  using wf
proof (induction n rule: wf_induct_rule)
  case (less n)
  show ?case
  proof (cases "is_subgraph (nodes s n)")
    case plain: False
    let ?srcs = "concat (map connected (input_connections (nodes s n)))"
    have "\<exists>f0. \<forall>f\<ge>f0. \<forall>src\<in>set ?srcs. \<forall>t. same_graph s t \<longrightarrow> tick H f (fst src) t \<noteq> None"
    proof (rule bound_for_all)
      fix src assume "src \<in> set ?srcs"
      then obtain ic where "ic \<in> set (input_connections (nodes s n))"
        "src \<in> set (connected ic)" by auto
      then have "(fst src, n) \<in> connection_graph s"
        by (rule producer_edge)
      then show "\<exists>f0. \<forall>f\<ge>f0. \<forall>t. same_graph s t \<longrightarrow> tick H f (fst src) t \<noteq> None"
        by (rule less.IH)
    qed
    then obtain f0 where f0:
      "\<forall>f\<ge>f0. \<forall>src\<in>set ?srcs. \<forall>t. same_graph s t \<longrightarrow> tick H f (fst src) t \<noteq> None"
      by blast
    have "\<forall>f\<ge>Suc f0. \<forall>t. same_graph s t \<longrightarrow> tick H f n t \<noteq> None"
    proof (intro allI impI)
      fix f t assume "Suc f0 \<le> f" and st: "same_graph s t"
      then obtain f' where f': "f = Suc f'" "f0 \<le> f'" by (cases f) auto
      have plain_t: "\<not> is_subgraph (nodes t n)"
        using plain st by (simp add: same_graph_def)
      have ics: "input_connections (nodes (Node_prepare H n t) n) =
                 input_connections (nodes s n)"
        using st Node_prepare_same_graph [of t H n] by (simp add: same_graph_def)
      have sp: "same_graph s (Node_prepare H n t)"
        using st Node_prepare_same_graph [of t H n] by (blast intro: same_graph_trans)
      have "add_input_connections H (tick H f')
              (channel_interpretation (nodes (Node_prepare H n t) n) =
                 Lav_CHANNEL_INTERPRETATION_SPEAKERS)
              n 0 (input_connections (nodes s n)) (Node_prepare H n t) \<noteq> None"
        using add_input_connections_returns [of "tick H f'" s "Node_prepare H n t", OF _ sp]
          tick_same_graph f0 f'(2) by fastforce
      then have "Node_tick H (tick H f') n t \<noteq> None"
        using ics
        by (auto simp: Node_tick_def Node_tick_gather_def Node_prepare_def Let_def
            split: option.splits tick_progress.splits)
      then show "tick H f n t \<noteq> None" using f'(1) plain_t by simp
    qed
    then show ?thesis by blast
  next
    case sub: True
    obtain fr where fr: "\<forall>f\<ge>fr. outputBufferOwner f s n \<noteq> None"
      using outputBufferOwner_returns [OF wf] by blast
    have "\<exists>f0. \<forall>f\<ge>f0. \<forall>out. subgraph_output (nodes s n) = Some out \<longrightarrow>
            (\<forall>t. same_graph s t \<longrightarrow> tick H f out t \<noteq> None)"
    proof (cases "subgraph_output (nodes s n)")
      case None
      then show ?thesis by simp
    next
      case (Some out)
      then have "(out, n) \<in> connection_graph s" by (rule subgraph_output_edge)
      then have "\<exists>f0. \<forall>f\<ge>f0. \<forall>t. same_graph s t \<longrightarrow> tick H f out t \<noteq> None"
        by (rule less.IH)
      then show ?thesis using Some by simp
    qed
    then obtain fo where fo: "\<forall>f\<ge>fo. \<forall>out. subgraph_output (nodes s n) = Some out \<longrightarrow>
            (\<forall>t. same_graph s t \<longrightarrow> tick H f out t \<noteq> None)"
      by blast
    have "\<forall>f\<ge>Suc (max fr fo). \<forall>t. same_graph s t \<longrightarrow> tick H f n t \<noteq> None"
    proof (intro allI impI)
      fix f t assume big: "Suc (max fr fo) \<le> f" and st: "same_graph s t"
      then obtain f' where f': "f = Suc f'" "fr \<le> f'" "fo \<le> f'" by (cases f) auto
      have sub_t: "is_subgraph (nodes t n)"
        using sub st by (simp add: same_graph_def)
      let ?t1 = "update_node n (\<lambda>nd. nd\<lparr>last_processed := tick_count t\<rparr>) t"
      let ?t2 = "Node_willProcessParents H n (Node_tickProperties H n ?t1)"
      have s2: "same_graph s ?t2"
        using st by (simp add: same_graph_def Node_willProcessParents_def
            Node_tickProperties_def)
      have out2: "subgraph_output (nodes ?t2 n) = subgraph_output (nodes s n)"
        using s2 by (simp add: same_graph_def)
      have "SubgraphNode_tick H (Suc f') (tick H f') n t \<noteq> None"
      proof (cases "subgraph_output (nodes s n)")
        case None
        then show ?thesis using out2
          by (simp add: SubgraphNode_tick_def Let_def)
      next
        case (Some out)
        then obtain t3 where t3: "tick H f' out ?t2 = Some t3"
          using fo f'(3) s2 by fastforce
        have st3: "same_graph s t3"
          using s2 tick_same_graph [OF t3] by (blast intro: same_graph_trans)
        have "outputBufferOwner (Suc f') s n \<noteq> None"
          using fr f'(2) le_SucI by blast
        moreover have "outputBufferOwner (Suc f') t3 n = outputBufferOwner (Suc f') s n"
          using st3 by (rule outputBufferOwner_same_graph)
        ultimately have "outputBufferOwner (Suc f') t3 n \<noteq> None"
          by metis
        then have "SubgraphNode_apply_mul_add (Suc f') n t3 \<noteq> None"
          by (auto simp: SubgraphNode_apply_mul_add_def split: option.splits)
        then show ?thesis using Some out2 t3
          by (simp add: SubgraphNode_tick_def Let_def)
      qed
      then show "tick H f n t \<noteq> None" using f'(1) sub_t by simp
    qed
    then show ?thesis by blast
  qed
qed

lemma Simulation_tick_returns:
  assumes wf: "wf (connection_graph s)"
  shows "\<exists>f0. \<forall>f\<ge>f0. Simulation_tick H f s \<noteq> None"
proof -
  let ?s1 = "s\<lparr>tick_count := tick_count s + 1\<rparr>"
  have s1: "same_graph s ?s1" by (simp add: same_graph_def)
  have "\<exists>f0. \<forall>f\<ge>f0. \<forall>src\<in>set (final_output_connection s).
          \<forall>t. same_graph s t \<longrightarrow> tick H f (fst src) t \<noteq> None"
    by (rule bound_for_all) (rule tick_returns [OF wf])
  then obtain f0 where f0: "\<forall>f\<ge>f0. \<forall>src\<in>set (final_output_connection s).
          \<forall>t. same_graph s t \<longrightarrow> tick H f (fst src) t \<noteq> None"
    by blast
  have "\<forall>f\<ge>f0. Simulation_tick H f s \<noteq> None"
  proof (intro allI impI)
    fix f assume "f0 \<le> f"
    then have "\<forall>src\<in>set (final_output_connection s).
          \<forall>t. same_graph s t \<longrightarrow> tick H f (fst src) t \<noteq> None"
      using f0 by blast
    then have "tick_producers (tick H f) (final_output_connection s) ?s1 \<noteq> None"
      using tick_producers_returns [of "tick H f" s ?s1, OF _ s1] tick_same_graph by blast
    then show "Simulation_tick H f s \<noteq> None"
      by (simp add: Simulation_tick_def)
  qed
  then show ?thesis by blast
qed

subsection \<open>The cycle check\<close>

lemma inputConnectionOwner_Suc:
  "inputConnectionOwner f s n = Some r \<Longrightarrow> inputConnectionOwner (Suc f) s n = Some r"
  by (induction f s n rule: inputConnectionOwner.induct)
     (auto split: option.splits if_splits)

lemma inputConnectionOwner_mono:
  assumes "inputConnectionOwner f s n = Some r" and "f \<le> f'"
  shows "inputConnectionOwner f' s n = Some r"
proof -
  have "inputConnectionOwner (f + k) s n = Some r" for k
  proof (induction k)
    case 0
    show ?case using assms(1) by simp
  next
    case (Suc k)
    then have "inputConnectionOwner (Suc (f + k)) s n = Some r"
      by (rule inputConnectionOwner_Suc)
    then show ?case by (simp only: add_Suc_right)
  qed
  then show ?thesis using assms(2) le_Suc_ex by blast
qed

lemma inputConnectionOwner_unique:
  assumes "inputConnectionOwner f s n = Some r" and "inputConnectionOwner f' s n = Some r'"
  shows "r' = r"
proof -
  have "inputConnectionOwner (max f f') s n = Some r"
    using assms(1) by (rule inputConnectionOwner_mono) simp
  moreover have "inputConnectionOwner (max f f') s n = Some r'"
    using assms(2) by (rule inputConnectionOwner_mono) simp
  ultimately show ?thesis by simp
qed

lemma Node_getDependencies_unique:
  assumes "Node_getDependencies f s n = Some deps"
      and "Node_getDependencies f' s n = Some deps'"
  shows "deps' = deps"
proof -
  from assms(1) obtain r where r: "inputConnectionOwner f s n = Some r"
    by (auto simp: Node_getDependencies_def split: option.splits)
  from assms(2) obtain r' where r': "inputConnectionOwner f' s n = Some r'"
    by (auto simp: Node_getDependencies_def split: option.splits)
  have "r' = r" using r r' by (rule inputConnectionOwner_unique)
  then show ?thesis using assms r r' by (simp add: Node_getDependencies_def)
qed

lemma Node_getDependencies_mono:
  "Node_getDependencies f s n = Some deps \<Longrightarrow> f \<le> f' \<Longrightarrow>
   Node_getDependencies f' s n = Some deps"
  by (auto simp: Node_getDependencies_def split: option.splits
      dest: inputConnectionOwner_mono)

lemma inputConnectionOwner_chain:
  "inputConnectionOwner f s n = Some (Some m) \<Longrightarrow> (m, n) \<in> (connection_graph s)\<^sup>*"
proof (induction f s n rule: inputConnectionOwner.induct)
  case (1 s n)
  then show ?case by simp
next
  case (2 f s n)
  show ?case
  proof (cases "is_subgraph (nodes s n)")
    case False
    with 2 show ?thesis by simp
  next
    case True
    with "2.prems" obtain k where k: "subgraph_input (nodes s n) = Some k"
      and own: "inputConnectionOwner f s k = Some (Some m)"
      by (auto split: option.splits)
    have "(m, k) \<in> (connection_graph s)\<^sup>*" using "2.IH" True k own by simp
    moreover have "(k, n) \<in> connection_graph s" using k by (rule subgraph_input_edge)
    ultimately show ?thesis by simp
  qed
qed

lemma dependency_in_connection_graph:
  assumes "Node_getDependencies f s n = Some deps" and "d \<in> set deps"
  shows "(d, n) \<in> (connection_graph s)\<^sup>+"
proof -
  from assms(1) obtain ow where ow: "inputConnectionOwner f s n = Some ow"
    and deps: "deps = remdups
            (concat (map (\<lambda>ic. map fst (connected ic))
               (case ow of None \<Rightarrow> [] | Some m \<Rightarrow> input_connections (nodes s m))) @
             concat (map (\<lambda>pc. map fst (snd pc)) (property_connections (nodes s n))))"
    by (auto simp: Node_getDependencies_def split: option.splits)
  from assms(2) deps consider
    (from_input) m ic src where "ow = Some m" "ic \<in> set (input_connections (nodes s m))"
      "src \<in> set (connected ic)" "d = fst src"
    | (from_property) pc src where "pc \<in> set (property_connections (nodes s n))"
      "src \<in> set (snd pc)" "d = fst src"
    by (cases ow) auto
  then show ?thesis
  proof cases
    case from_input
    have "(d, m) \<in> connection_graph s"
      using from_input(2,3,4) producer_edge by blast
    moreover have "(m, n) \<in> (connection_graph s)\<^sup>*"
      using ow from_input(1) inputConnectionOwner_chain by blast
    ultimately show ?thesis by simp
  next
    case from_property
    then have "(d, n) \<in> connection_graph s"
      using property_producer_edge by blast
    then show ?thesis by simp
  qed
qed

lemma dependency_graph_subset:
  "dependency_graph s \<subseteq> (connection_graph s)\<^sup>+"
  by (auto simp: dependency_graph_def intro: dependency_in_connection_graph)

lemma dependency_loop_returns:
  "\<forall>n\<in>set ns. chk n \<noteq> None \<Longrightarrow> dependency_loop chk ns \<noteq> None"
  by (induction ns) (auto split: option.splits bool.splits)

lemma dependency_loop_False:
  "dependency_loop chk ns = Some False \<Longrightarrow> \<exists>n\<in>set ns. chk n = Some False"
  by (induction ns) (auto split: option.splits bool.splits)

lemma dependency_loop_True:
  "dependency_loop chk ns = Some True \<Longrightarrow> \<forall>n\<in>set ns. chk n = Some True"
  by (induction ns) (auto split: option.splits bool.splits)

lemma doesEdgePreserveAcyclicity_returns:
  assumes wf: "wf (connection_graph s)"
  shows "\<exists>f0. \<forall>f\<ge>f0. doesEdgePreserveAcyclicity f s n e \<noteq> None"
proof -
  have "wf ((connection_graph s)\<^sup>+)" using wf by (rule wf_trancl)
  then show ?thesis
  proof (induction n rule: wf_induct_rule)
    case (less n)
    obtain fr where fr: "\<forall>f\<ge>fr. inputConnectionOwner f s n \<noteq> None"
      using inputConnectionOwner_returns [OF wf] by blast
    then obtain deps where deps: "Node_getDependencies fr s n = Some deps"
      by (fastforce simp: Node_getDependencies_def split: option.splits)
    have "\<exists>f0. \<forall>f\<ge>f0. \<forall>d\<in>set deps. doesEdgePreserveAcyclicity f s d e \<noteq> None"
    proof (rule bound_for_all)
      fix d assume "d \<in> set deps"
      then have "(d, n) \<in> (connection_graph s)\<^sup>+"
        using deps dependency_in_connection_graph by blast
      then show "\<exists>f0. \<forall>f\<ge>f0. doesEdgePreserveAcyclicity f s d e \<noteq> None"
        by (rule less.IH)
    qed
    then obtain fd where fd: "\<forall>f\<ge>fd. \<forall>d\<in>set deps. doesEdgePreserveAcyclicity f s d e \<noteq> None"
      by blast
    have "\<forall>f\<ge>Suc (max fr fd). doesEdgePreserveAcyclicity f s n e \<noteq> None"
    proof (intro allI impI)
      fix f assume "Suc (max fr fd) \<le> f"
      then obtain f' where f': "f = Suc f'" "fr \<le> f'" "fd \<le> f'" by (cases f) auto
      have gd: "Node_getDependencies (Suc f') s n = Some deps"
        using deps f'(2) by (auto intro: Node_getDependencies_mono)
      have "dependency_loop (\<lambda>d. doesEdgePreserveAcyclicity f' s d e) deps \<noteq> None"
        using fd f'(3) by (intro dependency_loop_returns) blast
      then show "doesEdgePreserveAcyclicity f s n e \<noteq> None"
        using f'(1) gd by auto
    qed
    then show ?case by blast
  qed
qed

lemma doesEdgePreserveAcyclicity_False:
  "doesEdgePreserveAcyclicity f s a e = Some False \<Longrightarrow>
   a = e \<or> (e, a) \<in> (dependency_graph s)\<^sup>+"
proof (induction f arbitrary: a)
  case 0
  then show ?case by simp
next
  case (Suc f)
  show ?case
  proof (cases "a = e")
    case True
    then show ?thesis by simp
  next
    case False
    with Suc.prems obtain deps where deps: "Node_getDependencies (Suc f) s a = Some deps"
      and loop: "dependency_loop (\<lambda>n. doesEdgePreserveAcyclicity f s n e) deps = Some False"
      by (auto split: option.splits)
    from dependency_loop_False [OF loop] obtain d where d: "d \<in> set deps"
      "doesEdgePreserveAcyclicity f s d e = Some False" by blast
    have da: "(d, a) \<in> dependency_graph s"
      using deps d(1) by (auto simp: dependency_graph_def)
    from Suc.IH [OF d(2)] have "d = e \<or> (e, d) \<in> (dependency_graph s)\<^sup>+" .
    then show ?thesis using da by (auto intro: trancl_into_trancl)
  qed
qed

lemma doesEdgePreserveAcyclicity_True:
  "doesEdgePreserveAcyclicity f s a e = Some True \<Longrightarrow>
   a \<noteq> e \<and> (e, a) \<notin> (dependency_graph s)\<^sup>+"
proof (induction f arbitrary: a)
  case 0
  then show ?case by simp
next
  case (Suc f)
  from Suc.prems have ne: "a \<noteq> e" by (auto split: if_splits)
  with Suc.prems obtain deps where deps: "Node_getDependencies (Suc f) s a = Some deps"
    and loop: "dependency_loop (\<lambda>n. doesEdgePreserveAcyclicity f s n e) deps = Some True"
    by (auto split: option.splits)
  have all: "\<forall>d\<in>set deps. d \<noteq> e \<and> (e, d) \<notin> (dependency_graph s)\<^sup>+"
    using dependency_loop_True [OF loop] Suc.IH by blast
  have "(e, a) \<notin> (dependency_graph s)\<^sup>+"
  proof
    assume "(e, a) \<in> (dependency_graph s)\<^sup>+"
    then obtain d where d: "(d, a) \<in> dependency_graph s"
      and ed: "e = d \<or> (e, d) \<in> (dependency_graph s)\<^sup>+"
      by (auto elim: tranclE)
    from d obtain f' deps' where "Node_getDependencies f' s a = Some deps'" "d \<in> set deps'"
      by (auto simp: dependency_graph_def)
    then have "d \<in> set deps"
      using deps Node_getDependencies_unique by blast
    with all ed show False by blast
  qed
  with ne show ?case by simp
qed

lemma diamond_graph:
  "connection_graph diamond = {(0, 1), (0, 2), (1, 3), (2, 3)}"
  by (auto simp: connection_graph_def node_refs_def diamond_def consumer_node_def
      source_node_def plain_node_def split: if_splits)

lemma diamond_finite_acyclic:
  "finite (connection_graph diamond) \<and> acyclic (connection_graph diamond)"
proof -
  have "connection_graph diamond \<subseteq> less_than"
    by (simp add: diamond_graph)
  then have "wf (connection_graph diamond)"
    using wf_less_than wf_subset by blast
  then show ?thesis by (simp add: wf_acyclic diamond_graph)
qed

text \<open>
  C9. When the connection graph is finite and acyclic, the recursion of \<^verbatim>\<open>tick\<close> from
  any node returns, the server tick from the final connection returns, and the depth
  first search \<^verbatim>\<open>doesEdgePreserveAcyclicity\<close> returns for any two nodes: in each case
  some amount of fuel gives a result.
\<close>

theorem acyclic_graph_recursion_terminates:
  assumes "finite (connection_graph s)" and "acyclic (connection_graph s)"
  shows "(\<exists>f t. tick H f n s = Some t) \<and>
         (\<exists>f t. Simulation_tick H f s = Some t) \<and>
         (\<exists>f b. doesEdgePreserveAcyclicity f s startNode endNode = Some b)"
proof -
  have wf: "wf (connection_graph s)"
    using assms by (rule finite_acyclic_wf)
  obtain f1 where "\<forall>f\<ge>f1. \<forall>t. same_graph s t \<longrightarrow> tick H f n t \<noteq> None"
    using tick_returns [OF wf] by blast
  then have "tick H f1 n s \<noteq> None" using same_graph_refl by blast
  moreover obtain f2 where "\<forall>f\<ge>f2. Simulation_tick H f s \<noteq> None"
    using Simulation_tick_returns [OF wf] by blast
  then have "Simulation_tick H f2 s \<noteq> None" by blast
  moreover obtain f3 where "\<forall>f\<ge>f3. doesEdgePreserveAcyclicity f s startNode endNode \<noteq> None"
    using doesEdgePreserveAcyclicity_returns [OF wf] by blast
  then have "doesEdgePreserveAcyclicity f3 s startNode endNode \<noteq> None" by blast
  ultimately show ?thesis by blast
qed

theorem acyclic_graph_recursion_terminates_witness:
  "finite (connection_graph diamond) \<and> acyclic (connection_graph diamond) \<and>
   (\<exists>f t. tick example_hooks f 3 diamond = Some t) \<and>
   (\<exists>f t. Simulation_tick example_hooks f diamond = Some t) \<and>
   (\<exists>f b. doesEdgePreserveAcyclicity f diamond 3 0 = Some b)"
  using acyclic_graph_recursion_terminates [of diamond example_hooks 3 3 0]
    diamond_finite_acyclic by simp

subsection \<open>\<^verbatim>\<open>Node::connect\<close>\<close>

lemma makeConnection_edges:
  assumes "i < length (input_connections (nodes s m))"
  shows "edges (makeConnection oc (m, i) s) = insert (oc, (m, i)) (edges s)"
  using assms
  by (auto simp: edges_def makeConnection_def nth_list_update split: if_splits)

lemma Node_getInputConnection_valid:
  "Node_getInputConnection f s n which = Some (Inr (m, i)) \<Longrightarrow>
   i < length (input_connections (nodes s m))"
  by (auto simp: Node_getInputConnection_def split: option.splits if_splits)

lemma Node_getInputConnection_error:
  "Node_getInputConnection f s n which = Some (Inl e) \<Longrightarrow> e = Lav_ERROR_RANGE"
  by (auto simp: Node_getInputConnection_def split: option.splits if_splits)

lemma Node_getInputConnection_returns:
  assumes "wf (connection_graph s)"
  shows "\<exists>f0. \<forall>f\<ge>f0. Node_getInputConnection f s n which \<noteq> None"
proof -
  obtain f0 where "\<forall>f\<ge>f0. inputConnectionOwner f s n \<noteq> None"
    using inputConnectionOwner_returns [OF assms] by blast
  then have "\<forall>f\<ge>f0. Node_getInputConnection f s n which \<noteq> None"
    by (auto simp: Node_getInputConnection_def split: option.splits)
  then show ?thesis by blast
qed

lemma Node_connect_returns:
  assumes wf: "wf (connection_graph s)"
  shows "\<exists>f r. Node_connect f s this output toNode input = Some r"
proof -
  obtain f1 where f1: "\<forall>f\<ge>f1. doesEdgePreserveAcyclicity f s this toNode \<noteq> None"
    using doesEdgePreserveAcyclicity_returns [OF wf] by blast
  obtain f2 where f2: "\<forall>f\<ge>f2. Node_getInputConnection f s toNode input \<noteq> None"
    using Node_getInputConnection_returns [OF wf] by blast
  have "doesEdgePreserveAcyclicity (max f1 f2) s this toNode \<noteq> None"
    using f1 by simp
  moreover have "Node_getInputConnection (max f1 f2) s toNode input \<noteq> None"
    using f2 by simp
  ultimately have "Node_connect (max f1 f2) s this output toNode input \<noteq> None"
    by (auto simp: Node_connect_def split: option.splits bool.splits sum.splits)
  then show ?thesis by blast
qed

lemma Node_connect_partial:
  assumes run: "Node_connect f s this output toNode input = Some (e, t)"
  shows "if toNode = this \<or> (toNode, this) \<in> (dependency_graph s)\<^sup>+
         then e = Lav_ERROR_CAUSES_CYCLE \<and> t = s
         else if output < 0 \<or> int (length (output_connections (nodes s this))) \<le> output
         then e = Lav_ERROR_RANGE \<and> t = s
         else (case Node_getInputConnection f s toNode input of
                 Some (Inr ic) \<Rightarrow>
                   e = Lav_ERROR_NONE \<and> t = makeConnection (this, nat output) ic s \<and>
                   edges t = insert ((this, nat output), ic) (edges s)
               | _ \<Rightarrow> e = Lav_ERROR_RANGE \<and> t = s)"
proof -
  from run obtain b where b: "doesEdgePreserveAcyclicity f s this toNode = Some b"
    by (auto simp: Node_connect_def split: option.splits)
  show ?thesis
  proof (cases b)
    case False
    with b have "doesEdgePreserveAcyclicity f s this toNode = Some False" by simp
    then have "this = toNode \<or> (toNode, this) \<in> (dependency_graph s)\<^sup>+"
      by (rule doesEdgePreserveAcyclicity_False)
    moreover have "e = Lav_ERROR_CAUSES_CYCLE \<and> t = s"
      using run b False by (simp add: Node_connect_def)
    ultimately show ?thesis by auto
  next
    case True
    with b have "doesEdgePreserveAcyclicity f s this toNode = Some True" by simp
    then have "this \<noteq> toNode \<and> (toNode, this) \<notin> (dependency_graph s)\<^sup>+"
      by (rule doesEdgePreserveAcyclicity_True)
    then have nocycle: "\<not> (toNode = this \<or> (toNode, this) \<in> (dependency_graph s)\<^sup>+)"
      by auto
    show ?thesis
    proof (cases "output < 0 \<or> int (length (output_connections (nodes s this))) \<le> output")
      case bad: True
      then have "e = Lav_ERROR_RANGE \<and> t = s"
        using run b True by (auto simp: Node_connect_def Node_getOutputConnection_def)
      then show ?thesis using nocycle bad by simp
    next
      case good: False
      then have oc: "Node_getOutputConnection s this output = Inr (this, nat output)"
        by (auto simp: Node_getOutputConnection_def)
      from run b True oc obtain r where r: "Node_getInputConnection f s toNode input = Some r"
        by (auto simp: Node_connect_def split: option.splits)
      show ?thesis
      proof (cases r)
        case (Inl e')
        then have "e' = Lav_ERROR_RANGE"
          using r Node_getInputConnection_error by blast
        then have "e = Lav_ERROR_RANGE \<and> t = s"
          using run b True oc r Inl by (simp add: Node_connect_def)
        then show ?thesis using nocycle good r Inl by simp
      next
        case (Inr ic)
        then have t: "e = Lav_ERROR_NONE \<and> t = makeConnection (this, nat output) ic s"
          using run b True oc r by (simp add: Node_connect_def)
        obtain m i where ic: "ic = (m, i)" by (cases ic)
        then have "i < length (input_connections (nodes s m))"
          using r Inr Node_getInputConnection_valid by blast
        then have "edges t = insert ((this, nat output), ic) (edges s)"
          using t ic makeConnection_edges by blast
        then show ?thesis using nocycle good r Inr t by simp
      qed
    qed
  qed
qed

lemma chain_graph: "connection_graph chain = {(0, 1), (1, 2)}"
  by (auto simp: connection_graph_def node_refs_def chain_def consumer_node_def
      source_node_def plain_node_def split: if_splits)

lemma chain_finite_acyclic:
  "finite (connection_graph chain) \<and> acyclic (connection_graph chain)"
proof -
  have "connection_graph chain \<subseteq> less_than"
    by (simp add: chain_graph)
  then have "wf (connection_graph chain)"
    using wf_less_than wf_subset by blast
  then show ?thesis by (simp add: wf_acyclic chain_graph)
qed

lemma chain_check_0_2: "doesEdgePreserveAcyclicity 3 chain 0 2 = Some True"
  by code_simp

lemma chain_check_2_0: "doesEdgePreserveAcyclicity 3 chain 2 0 = Some False"
  by code_simp

lemma chain_connect_2_0:
  "Node_connect 3 chain 2 0 0 0 = Some (Lav_ERROR_CAUSES_CYCLE, chain)"
  using chain_check_2_0 by (simp add: Node_connect_def)

lemma chain_input_2: "Node_getInputConnection 3 chain 2 0 = Some (Inr (2, 0))"
  by code_simp

lemma chain_connect_0_2:
  "Node_connect 3 chain 0 0 2 0 = Some (Lav_ERROR_NONE, makeConnection (0, 0) (2, 0) chain)"
proof -
  have "length (output_connections (nodes chain 0)) = 1"
    by (simp add: chain_def source_node_def plain_node_def)
  then show ?thesis
    using chain_check_0_2 chain_input_2
    by (simp add: Node_connect_def Node_getOutputConnection_def)
qed

lemma chain_connect_0_5_2:
  "Node_connect 3 chain 0 5 2 0 = Some (Lav_ERROR_RANGE, chain)"
proof -
  have "length (output_connections (nodes chain 0)) = 1"
    by (simp add: chain_def source_node_def plain_node_def)
  then show ?thesis
    using chain_check_0_2 by (simp add: Node_connect_def Node_getOutputConnection_def)
qed

lemma chain_lengths:
  "length (output_connections (nodes chain 0)) = 1 \<and>
   length (input_connections (nodes chain 2)) = 1"
  by (simp add: chain_def consumer_node_def source_node_def plain_node_def)

lemma input_side_chain: "input_side s n m \<Longrightarrow> (m, n) \<in> (connection_graph s)\<^sup>*"
  by (auto simp: input_side_def dest: inputConnectionOwner_chain)

lemma input_side_unique: "input_side s n m \<Longrightarrow> input_side s n m' \<Longrightarrow> m' = m"
  by (auto simp: input_side_def dest: inputConnectionOwner_unique)

lemma chain_input_side: "input_side chain 2 2"
proof -
  have "inputConnectionOwner (Suc 0) chain 2 = Some (Some 2)"
    by (simp add: chain_def consumer_node_def plain_node_def)
  then show ?thesis unfolding input_side_def by blast
qed

lemma dependency_reach:
  assumes "(a, b) \<in> (dependency_graph s)\<^sup>+"
  shows "(a, b) \<in> (connection_graph s)\<^sup>+"
proof -
  have "(dependency_graph s)\<^sup>+ \<subseteq> ((connection_graph s)\<^sup>+)\<^sup>+"
    using dependency_graph_subset by (rule trancl_mono_subset)
  then show ?thesis using assms by auto
qed

lemma detected_closes_cycle:
  assumes "toNode = this \<or> (toNode, this) \<in> (dependency_graph s)\<^sup>+"
  shows "closes_cycle s this toNode"
  using assms by (auto simp: closes_cycle_def dest: dependency_reach trancl_into_rtrancl)

lemma plain_input_side: "plain_graph s \<Longrightarrow> input_side s n m \<Longrightarrow> m = n"
proof -
  assume p: "plain_graph s" and "input_side s n m"
  then obtain f where f: "inputConnectionOwner f s n = Some (Some m)"
    by (auto simp: input_side_def)
  then show "m = n" using p by (cases f) (auto simp: plain_graph_def)
qed

lemma plain_connection_graph:
  assumes "plain_graph s"
  shows "connection_graph s \<subseteq> dependency_graph s"
proof
  fix e assume e: "e \<in> connection_graph s"
  obtain m n where mn: "e = (m, n)" by (cases e)
  have own: "inputConnectionOwner (Suc 0) s n = Some (Some n)"
    using assms by (simp add: plain_graph_def)
  have "m \<in> node_refs s n" using e mn by (simp add: connection_graph_def)
  then have "m \<in> set (the (Node_getDependencies (Suc 0) s n))"
    using assms own by (auto simp: node_refs_def Node_getDependencies_def plain_graph_def)
  moreover have "Node_getDependencies (Suc 0) s n \<noteq> None"
    using own by (simp add: Node_getDependencies_def)
  ultimately obtain deps where "Node_getDependencies (Suc 0) s n = Some deps" "m \<in> set deps"
    by auto
  then have "(m, n) \<in> dependency_graph s"
    unfolding dependency_graph_def by blast
  then show "e \<in> dependency_graph s" using mn by simp
qed

lemma plain_closes_cycle_detected:
  assumes p: "plain_graph s" and c: "closes_cycle s this toNode"
  shows "toNode = this \<or> (toNode, this) \<in> (dependency_graph s)\<^sup>+"
proof -
  from c p have "(toNode, this) \<in> (connection_graph s)\<^sup>*"
    by (auto simp: closes_cycle_def dest: plain_input_side)
  then have "(toNode, this) \<in> (dependency_graph s)\<^sup>*"
    using plain_connection_graph [OF p] rtrancl_mono by blast
  then show ?thesis by (auto simp: rtrancl_eq_or_trancl)
qed

lemma chain_plain: "plain_graph chain"
  by (simp add: plain_graph_def chain_def consumer_node_def source_node_def plain_node_def)

lemma chain_open: "\<not> closes_cycle chain 0 2"
proof
  assume "closes_cycle chain 0 2"
  with chain_plain have "(2::nat) = 0 \<or> (2, 0) \<in> (dependency_graph chain)\<^sup>+"
    by (rule plain_closes_cycle_detected)
  then show False
    using doesEdgePreserveAcyclicity_True [OF chain_check_0_2] by simp
qed

lemma set_concat_member: "x \<in> set ys \<Longrightarrow> set (g x) \<subseteq> set (concat (map g ys))"
  by auto

lemma set_concat_update:
  assumes "i < length xs"
  shows "set (concat (map g (xs[i := x]))) \<subseteq> set (g x) \<union> set (concat (map g xs))"
    and "set (concat (map g (xs[i := x]))) \<union> set (g (xs ! i)) =
         set (g x) \<union> set (concat (map g xs))"
proof -
  have xs: "xs = take i xs @ xs ! i # drop (Suc i) xs"
    using assms by (simp add: id_take_nth_drop)
  have up: "xs[i := x] = take i xs @ x # drop (Suc i) xs"
    using assms by (simp add: upd_conv_take_nth_drop)
  have c1: "set (concat (map g (xs[i := x]))) =
        set (concat (map g (take i xs))) \<union> set (g x) \<union> set (concat (map g (drop (Suc i) xs)))"
    by (simp add: up Un_assoc)
  have "concat (map g xs) = concat (map g (take i xs @ xs ! i # drop (Suc i) xs))"
    using xs by simp
  then have c2: "set (concat (map g xs)) =
        set (concat (map g (take i xs))) \<union> set (g (xs ! i)) \<union>
        set (concat (map g (drop (Suc i) xs)))"
    by (simp add: Un_assoc)
  show "set (concat (map g (xs[i := x]))) \<subseteq> set (g x) \<union> set (concat (map g xs))"
    using c1 c2 by auto
  show "set (concat (map g (xs[i := x]))) \<union> set (g (xs ! i)) =
         set (g x) \<union> set (concat (map g xs))"
    using c1 c2 by auto
qed

lemma makeConnection_refs:
  assumes i: "i < length (input_connections (nodes s m))"
  shows "node_refs (makeConnection oc (m, i) s) n =
         (if n = m then insert (fst oc) (node_refs s n) else node_refs s n)"
proof (cases "n = m")
  case False
  then show ?thesis by (simp add: node_refs_def makeConnection_def update_node_def)
next
  case True
  let ?g = "\<lambda>ic. map fst (connected ic)"
  let ?xs = "input_connections (nodes s m)"
  let ?x = "(?xs ! i)\<lparr>connected :=
              (if oc \<in> set (connected (?xs ! i)) then connected (?xs ! i)
               else connected (?xs ! i) @ [oc])\<rparr>"
  have gx: "set (?g ?x) = insert (fst oc) (set (?g (?xs ! i)))"
    by auto
  have old: "set (?g (?xs ! i)) \<subseteq> set (concat (map ?g ?xs))"
  proof -
    have "?xs ! i \<in> set ?xs" using i by simp
    then show ?thesis by (rule set_concat_member)
  qed
  have "set (concat (map ?g (?xs[i := ?x]))) \<union> set (?g (?xs ! i)) =
        set (?g ?x) \<union> set (concat (map ?g ?xs))"
    using i by (rule set_concat_update(2))
  moreover have "set (?g (?xs ! i)) \<subseteq> set (concat (map ?g (?xs[i := ?x])))"
  proof -
    have "?x \<in> set (?xs[i := ?x])" using i by (simp add: set_update_memI)
    then have "set (?g ?x) \<subseteq> set (concat (map ?g (?xs[i := ?x])))"
      by (rule set_concat_member)
    then show ?thesis using gx by blast
  qed
  ultimately have eq: "set (concat (map ?g (?xs[i := ?x]))) =
        insert (fst oc) (set (concat (map ?g ?xs)))"
    using gx old by blast
  have nd: "input_connections (nodes (makeConnection oc (m, i) s) m) = ?xs[i := ?x]"
    by (simp add: makeConnection_def update_node_def)
  have rest: "property_connections (nodes (makeConnection oc (m, i) s) m) =
                property_connections (nodes s m)"
    "subgraph_input (nodes (makeConnection oc (m, i) s) m) = subgraph_input (nodes s m)"
    "subgraph_output (nodes (makeConnection oc (m, i) s) m) = subgraph_output (nodes s m)"
    by (simp_all add: makeConnection_def update_node_def)
  have "node_refs (makeConnection oc (m, i) s) m = insert (fst oc) (node_refs s m)"
    unfolding node_refs_def nd rest eq by blast
  then show ?thesis using True by simp
qed

lemma makeConnection_graph:
  assumes "i < length (input_connections (nodes s m))"
  shows "connection_graph (makeConnection oc (m, i) s) =
         insert (fst oc, m) (connection_graph s)"
  using makeConnection_refs [OF assms]
  by (auto simp: connection_graph_def split: if_splits)

lemma Node_getInputConnection_cases:
  assumes "Node_getInputConnection f s n which = Some r"
  shows "case r of
           Inl e \<Rightarrow> e = Lav_ERROR_RANGE \<and>
             (which < 0 \<or>
              (\<forall>m. input_side s n m \<longrightarrow> int (length (input_connections (nodes s m))) \<le> which))
         | Inr ic \<Rightarrow> input_side s n (fst ic) \<and> snd ic = nat which \<and> 0 \<le> which \<and>
             which < int (length (input_connections (nodes s (fst ic))))"
proof -
  from assms obtain ow where ow: "inputConnectionOwner f s n = Some ow"
    by (auto simp: Node_getInputConnection_def split: option.splits)
  show ?thesis
  proof (cases ow)
    case None
    have "\<not> input_side s n m" for m
    proof
      assume "input_side s n m"
      then obtain f' where "inputConnectionOwner f' s n = Some (Some m)"
        by (auto simp: input_side_def)
      with ow have "Some m = ow" by (rule inputConnectionOwner_unique)
      with None show False by simp
    qed
    moreover have "r = Inl Lav_ERROR_RANGE"
      using assms ow None by (simp add: Node_getInputConnection_def)
    ultimately show ?thesis by simp
  next
    case (Some m0)
    have side: "input_side s n m0" using ow Some by (auto simp: input_side_def)
    show ?thesis
    proof (cases "which \<ge> int (length (input_connections (nodes s m0))) \<or> which < 0")
      case True
      have "r = Inl Lav_ERROR_RANGE"
        using assms ow Some True by (simp add: Node_getInputConnection_def)
      moreover have "input_side s n m \<Longrightarrow> m = m0" for m
        using side by (rule input_side_unique)
      ultimately show ?thesis using True by auto
    next
      case False
      have "r = Inr (m0, nat which)"
        using assms ow Some False by (simp add: Node_getInputConnection_def)
      then show ?thesis using side False by simp
    qed
  qed
qed

lemma Node_connect_undetected:
  assumes run: "Node_connect f s this output toNode input = Some (e, t)"
      and no: "\<not> (toNode = this \<or> (toNode, this) \<in> (dependency_graph s)\<^sup>+)"
  shows "if output < 0 \<or> int (length (output_connections (nodes s this))) \<le> output \<or>
            input < 0 \<or>
            (\<forall>m. input_side s toNode m \<longrightarrow>
                 int (length (input_connections (nodes s m))) \<le> input)
         then e = Lav_ERROR_RANGE \<and> t = s
         else (\<exists>m. input_side s toNode m \<and> e = Lav_ERROR_NONE \<and>
                   t = makeConnection (this, nat output) (m, nat input) s \<and>
                   edges t = insert ((this, nat output), (m, nat input)) (edges s) \<and>
                   connection_graph t = insert (this, m) (connection_graph s))"
proof -
  from run obtain b where b: "doesEdgePreserveAcyclicity f s this toNode = Some b"
    by (auto simp: Node_connect_def split: option.splits)
  have "b"
  proof (rule ccontr)
    assume "\<not> b"
    with b have "doesEdgePreserveAcyclicity f s this toNode = Some False" by simp
    then have "this = toNode \<or> (toNode, this) \<in> (dependency_graph s)\<^sup>+"
      by (rule doesEdgePreserveAcyclicity_False)
    with no show False by auto
  qed
  with b have chk: "doesEdgePreserveAcyclicity f s this toNode = Some True" by simp
  show ?thesis
  proof (cases "output < 0 \<or> int (length (output_connections (nodes s this))) \<le> output")
    case True
    then have "e = Lav_ERROR_RANGE \<and> t = s"
      using run chk by (auto simp: Node_connect_def Node_getOutputConnection_def)
    then show ?thesis using True by auto
  next
    case good: False
    then have oc: "Node_getOutputConnection s this output = Inr (this, nat output)"
      by (auto simp: Node_getOutputConnection_def)
    from run chk oc obtain r where r: "Node_getInputConnection f s toNode input = Some r"
      by (auto simp: Node_connect_def split: option.splits)
    note cases = Node_getInputConnection_cases [OF r]
    show ?thesis
    proof (cases r)
      case (Inl e')
      then have "e = Lav_ERROR_RANGE \<and> t = s"
        using run chk oc r cases by (simp add: Node_connect_def)
      then show ?thesis using cases Inl by auto
    next
      case (Inr ic)
      obtain m i where ic: "ic = (m, i)" by (cases ic)
      from cases Inr ic have side: "input_side s toNode m" and i: "i = nat input"
        and range: "0 \<le> input" "input < int (length (input_connections (nodes s m)))"
        by simp_all
      have t: "e = Lav_ERROR_NONE \<and> t = makeConnection (this, nat output) (m, nat input) s"
        using run chk oc r Inr ic i by (simp add: Node_connect_def)
      have len: "nat input < length (input_connections (nodes s m))"
        using range by simp
      have "edges (makeConnection (this, nat output) (m, nat input) s) =
              insert ((this, nat output), (m, nat input)) (edges s)"
        using len by (rule makeConnection_edges)
      moreover have "connection_graph (makeConnection (this, nat output) (m, nat input) s) =
              insert (this, m) (connection_graph s)"
        using makeConnection_graph [OF len, of "(this, nat output)"] by simp
      moreover have "\<not> (\<forall>m. input_side s toNode m \<longrightarrow>
                 int (length (input_connections (nodes s m))) \<le> input)"
        using side range by auto
      ultimately show ?thesis using good range side t by auto
    qed
  qed
qed

text \<open>
  C4, as claimed: \<^verbatim>\<open>connect\<close> raises \<^verbatim>\<open>CAUSES_CYCLE\<close> when adding the edge would make the
  graph cyclic, and otherwise adds the edge and succeeds. In the chain the edge from
  node 0 to node 2 would not make the graph cyclic; but \<^verbatim>\<open>connect(5, node 2, 0)\<close> on
  node 0, which has one output connection, raises \<^verbatim>\<open>RANGE\<close> and adds nothing.
\<close>

theorem connect_bad_index_counterexample:
  "\<not> closes_cycle chain 0 2 \<and>
   Node_connect 3 chain 0 5 2 0 = Some (Lav_ERROR_RANGE, chain)"
  using chain_open chain_connect_0_5_2 by simp

text \<open>
  C4, amended. In a finite acyclic graph \<^verbatim>\<open>connect(output, toNode, input)\<close> returns, and
  whenever it returns:
  \<^item> if \<open>toNode\<close> is the node itself or a direct or transitive dependency of the node,
    the result is \<^verbatim>\<open>CAUSES_CYCLE\<close> and the simulation is unchanged;
  \<^item> \<^verbatim>\<open>CAUSES_CYCLE\<close> is raised only when adding the edge would make the graph cyclic,
    and it leaves the simulation unchanged;
  \<^item> in a graph without subgraph nodes \<^verbatim>\<open>CAUSES_CYCLE\<close> is raised whenever adding the edge
    would make the graph cyclic;
  \<^item> when adding the edge would not make the graph cyclic: if \<open>output\<close> is not an index of
    an output connection of the node, or \<open>input\<close> not an index of an input connection of
    \<open>toNode\<close>, the result is \<^verbatim>\<open>RANGE\<close> and the simulation is unchanged; otherwise the
    result is \<^verbatim>\<open>NONE\<close>, the edges of the graph are the old ones and the new one, and the
    graph is still acyclic.

  Nothing is said of an edge that would make a graph with subgraph nodes cyclic while
  \<open>toNode\<close> is neither the node nor one of its dependencies.
\<close>

theorem Node_connect_outcome:
  assumes "finite (connection_graph s)" and "acyclic (connection_graph s)"
  shows "(\<exists>f r. Node_connect f s this output toNode input = Some r) \<and>
         (\<forall>f e t. Node_connect f s this output toNode input = Some (e, t) \<longrightarrow>
            (toNode = this \<or> (toNode, this) \<in> (dependency_graph s)\<^sup>+ \<longrightarrow>
               e = Lav_ERROR_CAUSES_CYCLE \<and> t = s) \<and>
            (e = Lav_ERROR_CAUSES_CYCLE \<longrightarrow> closes_cycle s this toNode \<and> t = s) \<and>
            (plain_graph s \<and> closes_cycle s this toNode \<longrightarrow>
               e = Lav_ERROR_CAUSES_CYCLE \<and> t = s) \<and>
            (\<not> closes_cycle s this toNode \<longrightarrow>
               (if output < 0 \<or> int (length (output_connections (nodes s this))) \<le> output \<or>
                   input < 0 \<or>
                   (\<forall>m. input_side s toNode m \<longrightarrow>
                        int (length (input_connections (nodes s m))) \<le> input)
                then e = Lav_ERROR_RANGE \<and> t = s
                else (\<exists>m. input_side s toNode m \<and> e = Lav_ERROR_NONE \<and>
                          t = makeConnection (this, nat output) (m, nat input) s \<and>
                          edges t = insert ((this, nat output), (m, nat input)) (edges s) \<and>
                          connection_graph t = insert (this, m) (connection_graph s) \<and>
                          acyclic (connection_graph t)))))"
proof (intro conjI allI impI)
  have "wf (connection_graph s)"
    using assms by (rule finite_acyclic_wf)
  then show "\<exists>f r. Node_connect f s this output toNode input = Some r"
    by (rule Node_connect_returns)
next
  fix f e t
  assume run: "Node_connect f s this output toNode input = Some (e, t)"
  note partial = Node_connect_partial [OF run]
  {
    assume "toNode = this \<or> (toNode, this) \<in> (dependency_graph s)\<^sup>+"
    with partial show "e = Lav_ERROR_CAUSES_CYCLE" "t = s" by simp_all
  }
  have detected: "toNode = this \<or> (toNode, this) \<in> (dependency_graph s)\<^sup>+"
    if "e = Lav_ERROR_CAUSES_CYCLE"
  proof (rule ccontr)
    assume no: "\<not> (toNode = this \<or> (toNode, this) \<in> (dependency_graph s)\<^sup>+)"
    from Node_connect_undetected [OF run no] that show False
      by (auto split: if_splits)
  qed
  {
    assume e: "e = Lav_ERROR_CAUSES_CYCLE"
    from detected [OF e] show "closes_cycle s this toNode"
      by (rule detected_closes_cycle)
    from detected [OF e] partial show "t = s" by simp
  }
  {
    assume "plain_graph s \<and> closes_cycle s this toNode"
    then have d: "toNode = this \<or> (toNode, this) \<in> (dependency_graph s)\<^sup>+"
      using plain_closes_cycle_detected by blast
    with partial show "e = Lav_ERROR_CAUSES_CYCLE" "t = s" by simp_all
  }
  assume open_edge: "\<not> closes_cycle s this toNode"
  then have no: "\<not> (toNode = this \<or> (toNode, this) \<in> (dependency_graph s)\<^sup>+)"
    using detected_closes_cycle by blast
  note und = Node_connect_undetected [OF run no]
  show "if output < 0 \<or> int (length (output_connections (nodes s this))) \<le> output \<or>
           input < 0 \<or>
           (\<forall>m. input_side s toNode m \<longrightarrow>
                int (length (input_connections (nodes s m))) \<le> input)
        then e = Lav_ERROR_RANGE \<and> t = s
        else (\<exists>m. input_side s toNode m \<and> e = Lav_ERROR_NONE \<and>
                  t = makeConnection (this, nat output) (m, nat input) s \<and>
                  edges t = insert ((this, nat output), (m, nat input)) (edges s) \<and>
                  connection_graph t = insert (this, m) (connection_graph s) \<and>
                  acyclic (connection_graph t))"
  proof (cases "output < 0 \<or> int (length (output_connections (nodes s this))) \<le> output \<or>
           input < 0 \<or>
           (\<forall>m. input_side s toNode m \<longrightarrow>
                int (length (input_connections (nodes s m))) \<le> input)")
    case True
    with und show ?thesis by simp
  next
    case False
    with und obtain m where m: "input_side s toNode m" "e = Lav_ERROR_NONE"
      "t = makeConnection (this, nat output) (m, nat input) s"
      "edges t = insert ((this, nat output), (m, nat input)) (edges s)"
      "connection_graph t = insert (this, m) (connection_graph s)"
      by auto
    have "(m, this) \<notin> (connection_graph s)\<^sup>*"
      using open_edge m(1) by (auto simp: closes_cycle_def)
    then have "acyclic (connection_graph t)"
      using assms(2) m(5) by (simp add: acyclic_insert)
    with m False show ?thesis by auto
  qed
qed

theorem Node_connect_outcome_witness:
  "finite (connection_graph chain) \<and> acyclic (connection_graph chain) \<and> plain_graph chain \<and>
   Node_connect 3 chain 2 0 0 0 = Some (Lav_ERROR_CAUSES_CYCLE, chain) \<and>
   closes_cycle chain 2 0 \<and>
   \<not> closes_cycle chain 0 2 \<and>
   Node_connect 3 chain 0 0 2 0 =
     Some (Lav_ERROR_NONE, makeConnection (0, 0) (2, 0) chain) \<and>
   edges (makeConnection (0, 0) (2, 0) chain) = insert ((0, 0), (2, 0)) (edges chain) \<and>
   connection_graph (makeConnection (0, 0) (2, 0) chain) = {(0, 2), (0, 1), (1, 2)} \<and>
   acyclic (connection_graph (makeConnection (0, 0) (2, 0) chain))"
proof -
  note fa = chain_finite_acyclic
  note outcome = Node_connect_outcome [of chain _ _ _ _, OF conjunct1 [OF fa] conjunct2 [OF fa],
      THEN conjunct2, rule_format]
  have closed: "closes_cycle chain 2 0"
    using outcome [OF chain_connect_2_0] by simp
  note added = outcome [OF chain_connect_0_2, THEN conjunct2, THEN conjunct2, THEN conjunct2,
      THEN mp, OF chain_open]
  have "\<not> (0 < (0::int) \<or> int (length (output_connections (nodes chain 0))) \<le> 0 \<or>
           0 < (0::int) \<or>
           (\<forall>m. input_side chain 2 m \<longrightarrow>
               int (length (input_connections (nodes chain m))) \<le> 0))"
    using chain_input_side chain_lengths by auto
  with added have "\<exists>m. input_side chain 2 m \<and>
      edges (makeConnection (0, 0) (2, 0) chain) =
        insert ((0, nat 0), (m, nat 0)) (edges chain) \<and>
      connection_graph (makeConnection (0, 0) (2, 0) chain) =
        insert (0, m) (connection_graph chain) \<and>
      acyclic (connection_graph (makeConnection (0, 0) (2, 0) chain))"
    by (auto split: if_splits)
  then obtain m where m: "input_side chain 2 m"
    "edges (makeConnection (0, 0) (2, 0) chain) = insert ((0, nat 0), (m, nat 0)) (edges chain)"
    "connection_graph (makeConnection (0, 0) (2, 0) chain) =
       insert (0, m) (connection_graph chain)"
    "acyclic (connection_graph (makeConnection (0, 0) (2, 0) chain))"
    by blast
  have "m = 2" using chain_plain m(1) by (rule plain_input_side)
  with m have "edges (makeConnection (0, 0) (2, 0) chain) =
                 insert ((0, 0), (2, 0)) (edges chain)"
    "connection_graph (makeConnection (0, 0) (2, 0) chain) = {(0, 2), (0, 1), (1, 2)}"
    by (simp_all add: chain_graph)
  then show ?thesis
    using fa chain_plain chain_connect_2_0 closed chain_open chain_connect_0_2 m(4) by simp
qed

text \<open>
  Such an edge: the subgraph node 1 is connected to its own input node 0.
  \<^verbatim>\<open>getDependencies\<close> of the subgraph node reads the connections of node 0 and never
  meets node 0 itself, so the check passes and the edge is added. The graph is then
  cyclic, the subgraph node is its own dependency, and a later cycle check from it, and
  with it a later \<^verbatim>\<open>connect\<close>, does not return.
\<close>

lemma inner_loop_graph: "connection_graph inner_loop = {(0, 1)}"
  by (auto simp: connection_graph_def node_refs_def inner_loop_def subgraph_node_def
      consumer_node_def plain_node_def split: if_splits)

lemma inner_loop_finite_acyclic:
  "finite (connection_graph inner_loop) \<and> acyclic (connection_graph inner_loop)"
proof -
  have "connection_graph inner_loop \<subseteq> less_than"
    by (simp add: inner_loop_graph)
  then have "wf (connection_graph inner_loop)"
    using wf_less_than wf_subset by blast
  then show ?thesis by (simp add: wf_acyclic inner_loop_graph)
qed

lemma inner_loop_check: "doesEdgePreserveAcyclicity 3 inner_loop 1 0 = Some True"
  by code_simp

lemma inner_loop_input: "Node_getInputConnection 3 inner_loop 0 0 = Some (Inr (0, 0))"
  by code_simp

lemma inner_loop_connect:
  "Node_connect 3 inner_loop 1 0 0 0 =
     Some (Lav_ERROR_NONE, makeConnection (1, 0) (0, 0) inner_loop)"
proof -
  have "length (output_connections (nodes inner_loop 1)) = 1"
    by (simp add: inner_loop_def subgraph_node_def plain_node_def)
  then show ?thesis
    using inner_loop_check inner_loop_input
    by (simp add: Node_connect_def Node_getOutputConnection_def)
qed

lemma inner_loop_dependencies:
  "Node_getDependencies (Suc (Suc f)) (makeConnection (1, 0) (0, 0) inner_loop) 1 = Some [1]"
  by (simp add: Node_getDependencies_def makeConnection_def update_node_def inner_loop_def
      subgraph_node_def consumer_node_def plain_node_def)

lemma inner_loop_check_diverges:
  "doesEdgePreserveAcyclicity f (makeConnection (1, 0) (0, 0) inner_loop) 1 2 = None"
proof (induction f)
  case 0
  show ?case by simp
next
  case (Suc f)
  show ?case
  proof (cases f)
    case 0
    then show ?thesis
      by (simp add: Node_getDependencies_def makeConnection_def update_node_def
          inner_loop_def subgraph_node_def consumer_node_def plain_node_def)
  next
    case (Suc f')
    then show ?thesis
      using Suc.IH inner_loop_dependencies [of f'] by simp
  qed
qed

lemma inner_loop_cycle_undetected:
  "finite (connection_graph inner_loop) \<and> acyclic (connection_graph inner_loop) \<and>
   closes_cycle inner_loop 1 0 \<and>
   Node_connect 3 inner_loop 1 0 0 0 =
     Some (Lav_ERROR_NONE, makeConnection (1, 0) (0, 0) inner_loop) \<and>
   connection_graph (makeConnection (1, 0) (0, 0) inner_loop) = {(1, 0), (0, 1)} \<and>
   \<not> acyclic (connection_graph (makeConnection (1, 0) (0, 0) inner_loop)) \<and>
   (\<forall>f. doesEdgePreserveAcyclicity f (makeConnection (1, 0) (0, 0) inner_loop) 1 2 = None) \<and>
   (\<forall>f. Node_connect f (makeConnection (1, 0) (0, 0) inner_loop) 1 0 2 0 = None)"
proof -
  have "(0, 1) \<in> (connection_graph inner_loop)\<^sup>*"
    by (rule r_into_rtrancl) (simp add: inner_loop_graph)
  then have c: "closes_cycle inner_loop 1 0"
    by (simp add: closes_cycle_def)
  have "length (input_connections (nodes inner_loop 0)) = 1"
    by (simp add: inner_loop_def consumer_node_def plain_node_def)
  then have g: "connection_graph (makeConnection (1, 0) (0, 0) inner_loop) = {(1, 0), (0, 1)}"
    using makeConnection_graph [of 0 inner_loop 0 "(1, 0)"] by (simp add: inner_loop_graph)
  have "(1, 1) \<in> {(1::nat, 0::nat), (0, 1)}\<^sup>+"
    by (meson insertI1 insertI2 trancl.simps)
  then have "\<not> acyclic {(1::nat, 0::nat), (0, 1)}"
    unfolding acyclic_def by blast
  then have n: "\<not> acyclic (connection_graph (makeConnection (1, 0) (0, 0) inner_loop))"
    using g by simp
  have d: "\<forall>f. Node_connect f (makeConnection (1, 0) (0, 0) inner_loop) 1 0 2 0 = None"
    unfolding Node_connect_def inner_loop_check_diverges by simp
  show ?thesis
    using inner_loop_finite_acyclic c inner_loop_connect g n inner_loop_check_diverges d
    by blast
qed

subsection \<open>The public property interface\<close>

lemma Node_getProperty_error:
  "Node_getProperty f s n slot = Some (Inl e) \<Longrightarrow>
   e = Lav_ERROR_INTERNAL \<or> e = Lav_ERROR_RANGE"
  by (induction f s n slot rule: Node_getProperty.induct)
     (auto split: option.splits)

lemma length_range_never_succeeds:
  assumes "Lav_nodeGetArrayPropertyLengthRange f s nodeHandle slot = Some (e, r)"
  shows "e \<noteq> Lav_ERROR_NONE \<and> r = None"
proof (cases "incomingObject s nodeHandle")
  case (Inl e')
  then show ?thesis using assms
    by (auto simp: Lav_nodeGetArrayPropertyLengthRange_def incomingObject_def
        split: option.splits)
next
  case (Inr n)
  with assms obtain g where g: "Node_getProperty f s n slot = Some g"
    by (auto simp: Lav_nodeGetArrayPropertyLengthRange_def split: option.splits)
  show ?thesis
  proof (cases g)
    case (Inl e')
    then have "e' = Lav_ERROR_INTERNAL \<or> e' = Lav_ERROR_RANGE"
      using g Node_getProperty_error by blast
    then show ?thesis using assms Inr g Inl
      by (auto simp: Lav_nodeGetArrayPropertyLengthRange_def)
  next
    case (Inr p)
    then show ?thesis using assms \<open>incomingObject s nodeHandle = Inr n\<close> g
      by (auto simp: Lav_nodeGetArrayPropertyLengthRange_def Let_def split: if_splits)
  qed
qed

text \<open>
  C5. The claim: the length range operation raises \<^verbatim>\<open>TYPE_MISMATCH\<close> exactly when the
  property is neither a float array nor an int array, and otherwise returns \<^verbatim>\<open>NONE\<close> and
  the range. Slot 7 of the example node holds a float array property with lengths from
  1 to 8; the code returns \<^verbatim>\<open>TYPE_MISMATCH\<close> and writes no range, since its test
  \<^verbatim>\<open>type != FLOAT_ARRAY || type != INT_ARRAY\<close> holds for every type
  (\<open>length_range_never_succeeds\<close>).
\<close>

theorem length_range_of_float_array_is_type_mismatch:
  "stored_property property_sim 0 7 = Some (float_array_property [1, 2]) \<and>
   ptype (float_array_property [1, 2]) = Lav_PROPERTYTYPE_FLOAT_ARRAY \<and>
   Lav_nodeGetArrayPropertyLengthRange 1 property_sim 1 7 =
     Some (Lav_ERROR_TYPE_MISMATCH, None) \<and>
   length_range_spec (float_array_property [1, 2]) = (Lav_ERROR_NONE, Some (1, 8))"
  by code_simp

theorem length_range_of_float_array_differs_from_spec:
  "Lav_nodeGetArrayPropertyLengthRange 1 property_sim 1 7 \<noteq>
     Some (length_range_spec (float_array_property [1, 2]))"
  using length_range_of_float_array_is_type_mismatch by simp

lemma reset_example:
  "Lav_nodeResetProperty 1 property_sim 1 3 = Some (Lav_ERROR_NONE, property_sim)"
  by (simp add: Lav_nodeResetProperty_def incomingObject_def property_sim_def Let_def
      Property_isReadOnly_def int_property_def plain_node_def)

text \<open>
  C10. A call of \<^verbatim>\<open>Lav_nodeResetProperty\<close> that returns \<^verbatim>\<open>NONE\<close> leaves the simulation as
  it was, and with it every stored property: \<^verbatim>\<open>reset()\<close> is called on the copy that
  \<^verbatim>\<open>auto prop\<close> made.
\<close>

theorem Lav_nodeResetProperty_changes_nothing:
  assumes "Lav_nodeResetProperty f s nodeHandle slot = Some (Lav_ERROR_NONE, t)"
  shows "t = s \<and> stored_property t n slot' = stored_property s n slot'"
  using assms
  by (auto simp: Lav_nodeResetProperty_def Let_def split: option.splits sum.splits if_splits)

theorem Lav_nodeResetProperty_changes_nothing_witness:
  "Lav_nodeResetProperty 1 property_sim 1 3 = Some (Lav_ERROR_NONE, property_sim) \<and>
   stored_property property_sim 0 3 = Some (int_property 5 0) \<and>
   current (int_property 5 0) = IntValue 5 \<and>
   default_value (int_property 5 0) = IntValue 0 \<and>
   current (Property_reset (int_property 5 0)) = IntValue 0"
proof -
  have "property_sim = property_sim \<and>
        stored_property property_sim 0 3 = stored_property property_sim 0 3"
    using Lav_nodeResetProperty_changes_nothing [OF reset_example, of 0 3] .
  moreover have "stored_property property_sim 0 3 = Some (int_property 5 0)"
    by (simp add: stored_property_def property_sim_def plain_node_def)
  ultimately show ?thesis
    using reset_example by (simp add: int_property_def Property_reset_def)
qed

lemma Lav_nodeSetIntProperty_writes_through:
  "map_option (\<lambda>r. (fst r, stored_property (snd r) 0 3))
     (Lav_nodeSetIntProperty 1 property_sim 1 3 9) =
   Some (Lav_ERROR_NONE, Some ((int_property 5 0)\<lparr>current := IntValue 9, modified := True\<rparr>))"
  by code_simp

subsection \<open>The delay lengths of the late reflections node\<close>

lemma spec_round_c_round: "spec_round x = c_round x"
  by (simp add: spec_round_def c_round_def)

lemma upt_16: "[0..<16] = [0, 1, 2, 3, 4, 5, 6, 7, 8, 9, 10, 11, 12, 13, 14, 15]"
  by code_simp

lemma recompute_explicit:
  "LateReflectionsNode_recompute_delays A density rate =
     map (\<lambda>p. single A (min (spec_seconds A density rate p) 1))
       [37, 27, 17, 29, 4, 11, 19, 31, 5, 13, 23, 35, 7, 16, 9, 3]"
  by (simp add: LateReflectionsNode_recompute_delays_def Let_def upt_16 coprimes_def swap_def
      spec_seconds_def spec_samples_def spec_log_def spec_round_c_round)

lemma spec_explicit:
  "spec_delays A density rate =
     map (\<lambda>p. single A (min (spec_seconds A density rate p) 1))
       [37, 27, 17, 29, 4, 11, 19, 31, 5, 13, 23, 35, 7, 16, 9, 3]"
  by (simp add: spec_delays_def upt_16 spec_prime_def spec_swapped_def coprimes_def)

text \<open>
  In exact arithmetic the rounded logarithm of \<open>x\<close> to the base \<open>p\<close> is \<open>n + 1\<close> when \<open>x\<close>
  squared lies between the odd powers \<open>p^(2n+1)\<close> and \<open>p^(2n+3)\<close>.
\<close>

lemma exact_round:
  assumes p: "1 < p" and x: "0 < x"
      and lo: "real p ^ (2 * n + 1) \<le> x\<^sup>2" and hi: "x\<^sup>2 < real p ^ (2 * n + 3)"
  shows "c_round (ln x / ln (real p)) = int n + 1"
proof -
  have lp: "0 < ln (real p)" using p by simp
  have pos: "0 < real p ^ (2 * n + 1)" "0 < x\<^sup>2"
    using p x by simp_all
  have "ln (real p ^ (2 * n + 1)) \<le> ln (x\<^sup>2)"
    using lo pos by (simp only: ln_le_cancel_iff)
  then have "real (2 * n + 1) * ln (real p) \<le> 2 * ln x"
    using p x by (simp add: ln_realpow del: power_Suc of_nat_add of_nat_mult)
  then have "(real n + 1 / 2) * ln (real p) \<le> ln x"
    by (simp add: algebra_simps)
  then have low: "real n + 1 / 2 \<le> ln x / ln (real p)"
    using lp by (simp add: pos_le_divide_eq)
  have pos': "0 < real p ^ (2 * n + 3)"
    using p by simp
  have "ln (x\<^sup>2) < ln (real p ^ (2 * n + 3))"
    using hi pos(2) pos' by (simp only: ln_less_cancel_iff)
  then have "2 * ln x < real (2 * n + 3) * ln (real p)"
    using p x by (simp add: ln_realpow del: power_Suc of_nat_add of_nat_mult)
  then have "ln x < (real n + 3 / 2) * ln (real p)"
    by (simp add: algebra_simps)
  then have high: "ln x / ln (real p) < real n + 3 / 2"
    using lp by (simp add: pos_divide_less_eq)
  have "\<lfloor>ln x / ln (real p) + 1 / 2\<rfloor> = int n + 1"
    using low high by (intro floor_unique) simp_all
  moreover have "0 \<le> ln x / ln (real p)" using low by simp
  ultimately show ?thesis by (simp add: c_round_def)
qed

lemma exact_seconds:
  assumes p: "1 < p"
      and x: "0 < LateReflectionsNode_baseDelay exact_arithmetic density * rate"
      and lo: "real p ^ (2 * n + 1) \<le> (LateReflectionsNode_baseDelay exact_arithmetic density * rate)\<^sup>2"
      and hi: "(LateReflectionsNode_baseDelay exact_arithmetic density * rate)\<^sup>2 < real p ^ (2 * n + 3)"
  shows "spec_seconds exact_arithmetic density rate p = real p ^ (n + 1) / rate"
proof -
  have cast: "real_of_int (int n + 1) = real (n + 1)"
    by simp
  have "real p powr real (n + 1) = real p ^ (n + 1)"
    using p by (intro powr_realpow) simp
  then have pw: "real p powr real_of_int (int n + 1) = real p ^ (n + 1)"
    by (simp only: cast)
  have "spec_seconds exact_arithmetic density rate p =
          real p powr real_of_int (c_round
            (ln (LateReflectionsNode_baseDelay exact_arithmetic density * rate) / ln (real p))) /
          rate"
    by (simp add: spec_seconds_def spec_samples_def spec_log_def spec_round_c_round
        exact_arithmetic_def)
  then show ?thesis
    by (simp only: exact_round [OF p x lo hi] pw)
qed

lemma exact_base:
  "LateReflectionsNode_baseDelay exact_arithmetic 1 = 3 / 1000"
  "LateReflectionsNode_baseDelay exact_arithmetic (- 39) = 1003 / 1000"
  by (simp_all add: LateReflectionsNode_baseDelay_def exact_arithmetic_def)

lemma exact_single: "single exact_arithmetic x = x"
  by (simp add: exact_arithmetic_def)

lemma hall_37: "spec_seconds exact_arithmetic 1 44100 37 = 37 / 44100"
  using exact_seconds [of 37 "1" 44100 0] by (simp add: exact_base power2_eq_square)

lemma hall_27: "spec_seconds exact_arithmetic 1 44100 27 = 27 / 44100"
  using exact_seconds [of 27 "1" 44100 0] by (simp add: exact_base power2_eq_square)

lemma hall_17: "spec_seconds exact_arithmetic 1 44100 17 = 289 / 44100"
  using exact_seconds [of 17 "1" 44100 1] by (simp add: exact_base power2_eq_square)

lemma hall_29: "spec_seconds exact_arithmetic 1 44100 29 = 29 / 44100"
  using exact_seconds [of 29 "1" 44100 0] by (simp add: exact_base power2_eq_square)

lemma hall_4: "spec_seconds exact_arithmetic 1 44100 4 = 256 / 44100"
  using exact_seconds [of 4 "1" 44100 3] by (simp add: exact_base power2_eq_square)

lemma hall_11: "spec_seconds exact_arithmetic 1 44100 11 = 121 / 44100"
  using exact_seconds [of 11 "1" 44100 1] by (simp add: exact_base power2_eq_square)

lemma hall_19: "spec_seconds exact_arithmetic 1 44100 19 = 361 / 44100"
  using exact_seconds [of 19 "1" 44100 1] by (simp add: exact_base power2_eq_square)

lemma hall_31: "spec_seconds exact_arithmetic 1 44100 31 = 31 / 44100"
  using exact_seconds [of 31 "1" 44100 0] by (simp add: exact_base power2_eq_square)

lemma hall_5: "spec_seconds exact_arithmetic 1 44100 5 = 125 / 44100"
  using exact_seconds [of 5 "1" 44100 2] by (simp add: exact_base power2_eq_square)

lemma hall_13: "spec_seconds exact_arithmetic 1 44100 13 = 169 / 44100"
  using exact_seconds [of 13 "1" 44100 1] by (simp add: exact_base power2_eq_square)

lemma hall_23: "spec_seconds exact_arithmetic 1 44100 23 = 529 / 44100"
  using exact_seconds [of 23 "1" 44100 1] by (simp add: exact_base power2_eq_square)

lemma hall_35: "spec_seconds exact_arithmetic 1 44100 35 = 35 / 44100"
  using exact_seconds [of 35 "1" 44100 0] by (simp add: exact_base power2_eq_square)

lemma hall_7: "spec_seconds exact_arithmetic 1 44100 7 = 343 / 44100"
  using exact_seconds [of 7 "1" 44100 2] by (simp add: exact_base power2_eq_square)

lemma hall_16: "spec_seconds exact_arithmetic 1 44100 16 = 256 / 44100"
  using exact_seconds [of 16 "1" 44100 1] by (simp add: exact_base power2_eq_square)

lemma hall_9: "spec_seconds exact_arithmetic 1 44100 9 = 81 / 44100"
  using exact_seconds [of 9 "1" 44100 1] by (simp add: exact_base power2_eq_square)

lemma hall_3: "spec_seconds exact_arithmetic 1 44100 3 = 81 / 44100"
  using exact_seconds [of 3 "1" 44100 3] by (simp add: exact_base power2_eq_square)

lemma clamped_37: "spec_seconds exact_arithmetic (- 39) 1000 37 = 1369 / 1000"
  using exact_seconds [of 37 "- 39" 1000 1] by (simp add: exact_base power2_eq_square)

lemma clamped_27: "spec_seconds exact_arithmetic (- 39) 1000 27 = 729 / 1000"
  using exact_seconds [of 27 "- 39" 1000 1] by (simp add: exact_base power2_eq_square)

lemma clamped_17: "spec_seconds exact_arithmetic (- 39) 1000 17 = 289 / 1000"
  using exact_seconds [of 17 "- 39" 1000 1] by (simp add: exact_base power2_eq_square)

lemma clamped_29: "spec_seconds exact_arithmetic (- 39) 1000 29 = 841 / 1000"
  using exact_seconds [of 29 "- 39" 1000 1] by (simp add: exact_base power2_eq_square)

lemma clamped_4: "spec_seconds exact_arithmetic (- 39) 1000 4 = 1024 / 1000"
  using exact_seconds [of 4 "- 39" 1000 4] by (simp add: exact_base power2_eq_square)

lemma clamped_11: "spec_seconds exact_arithmetic (- 39) 1000 11 = 1331 / 1000"
  using exact_seconds [of 11 "- 39" 1000 2] by (simp add: exact_base power2_eq_square)

lemma clamped_19: "spec_seconds exact_arithmetic (- 39) 1000 19 = 361 / 1000"
  using exact_seconds [of 19 "- 39" 1000 1] by (simp add: exact_base power2_eq_square)

lemma clamped_31: "spec_seconds exact_arithmetic (- 39) 1000 31 = 961 / 1000"
  using exact_seconds [of 31 "- 39" 1000 1] by (simp add: exact_base power2_eq_square)

lemma clamped_5: "spec_seconds exact_arithmetic (- 39) 1000 5 = 625 / 1000"
  using exact_seconds [of 5 "- 39" 1000 3] by (simp add: exact_base power2_eq_square)

lemma clamped_13: "spec_seconds exact_arithmetic (- 39) 1000 13 = 2197 / 1000"
  using exact_seconds [of 13 "- 39" 1000 2] by (simp add: exact_base power2_eq_square)

lemma clamped_23: "spec_seconds exact_arithmetic (- 39) 1000 23 = 529 / 1000"
  using exact_seconds [of 23 "- 39" 1000 1] by (simp add: exact_base power2_eq_square)

lemma clamped_35: "spec_seconds exact_arithmetic (- 39) 1000 35 = 1225 / 1000"
  using exact_seconds [of 35 "- 39" 1000 1] by (simp add: exact_base power2_eq_square)

lemma clamped_7: "spec_seconds exact_arithmetic (- 39) 1000 7 = 2401 / 1000"
  using exact_seconds [of 7 "- 39" 1000 3] by (simp add: exact_base power2_eq_square)

lemma clamped_16: "spec_seconds exact_arithmetic (- 39) 1000 16 = 256 / 1000"
  using exact_seconds [of 16 "- 39" 1000 1] by (simp add: exact_base power2_eq_square)

lemma clamped_9: "spec_seconds exact_arithmetic (- 39) 1000 9 = 729 / 1000"
  using exact_seconds [of 9 "- 39" 1000 2] by (simp add: exact_base power2_eq_square)

lemma clamped_3: "spec_seconds exact_arithmetic (- 39) 1000 3 = 729 / 1000"
  using exact_seconds [of 3 "- 39" 1000 5] by (simp add: exact_base power2_eq_square)

lemma hall_example:
  "LateReflectionsNode_recompute_delays exact_arithmetic 1 44100 =
     [37 / 44100, 27 / 44100, 289 / 44100, 29 / 44100, 256 / 44100, 121 / 44100,
      361 / 44100, 31 / 44100, 125 / 44100, 169 / 44100, 529 / 44100, 35 / 44100,
      343 / 44100, 256 / 44100, 81 / 44100, 81 / 44100]"
  by (simp add: recompute_explicit exact_single
      hall_37 hall_27 hall_17 hall_29 hall_4 hall_11 hall_19 hall_31 hall_5 hall_13 hall_23 hall_35 hall_7 hall_16 hall_9 hall_3)

lemma clamped_example:
  "LateReflectionsNode_recompute_delays exact_arithmetic (- 39) 1000 =
     [1, 729 / 1000, 289 / 1000, 841 / 1000, 1, 1, 361 / 1000, 961 / 1000, 625 / 1000, 1,
      529 / 1000, 1, 1, 256 / 1000, 729 / 1000, 729 / 1000]"
  by (simp add: recompute_explicit exact_single
      clamped_37 clamped_27 clamped_17 clamped_29 clamped_4 clamped_11 clamped_19 clamped_31 clamped_5 clamped_13 clamped_23 clamped_35 clamped_7 clamped_16 clamped_9 clamped_3)

text \<open>
  The rounding decides the power. At 170666.6 Hz and density 1 the base delay is
  511.9998 samples, for which exact arithmetic gives line 4 the length \<open>4^4\<close>; three
  decimal places make it 512 samples, the quotient of the logarithms 4.5 and the length
  \<open>4^5\<close>.
\<close>

lemma decimal_fields:
  "single decimal_arithmetic x = real_of_int (c_round (x * 1000)) / 1000"
  "double decimal_arithmetic x = x"
  "log_float decimal_arithmetic = ln"
  "log_double decimal_arithmetic = ln"
  "pow_double decimal_arithmetic x y = x powr y"
  by (simp_all add: decimal_arithmetic_def exact_arithmetic_def)

lemma decimal_samples:
  "single decimal_arithmetic
     (LateReflectionsNode_baseDelay decimal_arithmetic 1 * (853333 / 5)) = 512"
  by (simp add: LateReflectionsNode_baseDelay_def decimal_fields c_round_def)

lemma decimal_seconds: "spec_seconds decimal_arithmetic 1 (853333 / 5) 4 = 1024 / (853333 / 5)"
proof -
  have r: "c_round (ln 512 / ln (real 4)) = int 4 + 1"
    by (rule exact_round) simp_all
  have "real 4 powr real_of_int (int 4 + 1) = real 4 powr real 5"
    by simp
  also have "\<dots> = real 4 ^ 5"
    by (intro powr_realpow) simp
  finally have pw: "real 4 powr real_of_int (int 4 + 1) = 1024"
    by simp
  have "spec_seconds decimal_arithmetic 1 (853333 / 5) 4 =
          real 4 powr real_of_int (c_round (ln 512 / ln (real 4))) / (853333 / 5)"
    by (simp only: spec_seconds_def spec_samples_def spec_log_def spec_round_c_round
        decimal_fields(2-5) decimal_samples)
  then show ?thesis by (simp only: r pw)
qed

lemma rounding_decides_exponent:
  "LateReflectionsNode_recompute_delays exact_arithmetic 1 (853333 / 5) ! 4 =
     256 / (853333 / 5) \<and>
   LateReflectionsNode_recompute_delays decimal_arithmetic 1 (853333 / 5) ! 4 = 6 / 1000"
proof
  have "spec_seconds exact_arithmetic 1 (853333 / 5) 4 = real 4 ^ (3 + 1) / (853333 / 5)"
    by (rule exact_seconds) (simp_all add: exact_base power2_eq_square)
  then show "LateReflectionsNode_recompute_delays exact_arithmetic 1 (853333 / 5) ! 4 =
     256 / (853333 / 5)"
    by (simp add: recompute_explicit exact_single)
  show "LateReflectionsNode_recompute_delays decimal_arithmetic 1 (853333 / 5) ! 4 = 6 / 1000"
    by (simp add: recompute_explicit decimal_seconds decimal_fields(1) c_round_def)
qed

text \<open>
  C8. The delays that \<^verbatim>\<open>recompute\<close> hands to the feedback delay network are the delays
  of the spec, in whatever arithmetic the platform computes them: sixteen of them, the
  one at position \<open>i\<close> the length \<open>prime^round(log_prime(base_delay * sr))\<close> in seconds for
  the prime \<open>coprimes[(i mod 4)*4 + i/4]\<close>, positions 0 and 15 and positions 1 and 14
  exchanged, each clamped to one second. The code clamps before it swaps and the spec
  after; the result is the same list. Written out, the primes of the sixteen positions
  are 37, 27, 17, 29, 4, 11, 19, 31, 5, 13, 23, 35, 7, 16, 9, 3. In exact arithmetic, at
  44100 Hz and density 1 (a base delay of 132.3 samples) the lengths in samples are
  37, 27, 289, 29, 256, 121, 361, 31, 125, 169, 529, 35, 343, 256, 81, 81; and at
  1000 Hz and a density of -39 (a base delay of 1003 samples) seven of the sixteen
  delays are clamped.
\<close>

theorem recompute_delays_as_specified:
  "LateReflectionsNode_recompute_delays A density rate = spec_delays A density rate \<and>
   LateReflectionsNode_recompute_delays A density rate =
     map (\<lambda>p. single A (min (spec_seconds A density rate p) 1))
       [37, 27, 17, 29, 4, 11, 19, 31, 5, 13, 23, 35, 7, 16, 9, 3] \<and>
   LateReflectionsNode_recompute_delays exact_arithmetic 1 44100 =
     [37 / 44100, 27 / 44100, 289 / 44100, 29 / 44100, 256 / 44100, 121 / 44100,
      361 / 44100, 31 / 44100, 125 / 44100, 169 / 44100, 529 / 44100, 35 / 44100,
      343 / 44100, 256 / 44100, 81 / 44100, 81 / 44100] \<and>
   LateReflectionsNode_recompute_delays exact_arithmetic (- 39) 1000 =
     [1, 729 / 1000, 289 / 1000, 841 / 1000, 1, 1, 361 / 1000, 961 / 1000, 625 / 1000, 1,
      529 / 1000, 1, 1, 256 / 1000, 729 / 1000, 729 / 1000]"
proof (intro conjI)
  show "LateReflectionsNode_recompute_delays A density rate = spec_delays A density rate"
    by (simp only: recompute_explicit spec_explicit)
qed (rule recompute_explicit hall_example clamped_example)+

end
